theory Spec2Isabelle
  imports Main "HOL-Library.Sublist" "HOL-Library.Code_Target_Numeral"
begin

section \<open>The decoder stack of PulseView (pv/data/decoderstack.cpp)\<close>

text \<open>
  A shallow embedding of \<^verbatim>\<open>pv::data::DecoderStack\<close>. The object is a record, each member
  function a HOL function from the record to the record. C++ names are kept; the trailing
  underscore of the member variables is dropped (\<^verbatim>\<open>samples_decoded_\<close> is the field
  \<open>samples_decoded\<close>, and the getter \<^verbatim>\<open>samples_decoded()\<close>, which only returns the
  member under the output lock, is that field's selector; likewise \<^verbatim>\<open>error_message()\<close>
  and \<^verbatim>\<open>stack()\<close>).

  Integers: \<^verbatim>\<open>int64_t\<close> values are \<open>int\<close>, \<^verbatim>\<open>uint64_t\<close> and \<^verbatim>\<open>unsigned int\<close>
  values are \<open>nat\<close>; the annotation counter wraps at \<open>2 ^ 64\<close> as the C++ counter does.
  Signed overflow of the sample numbers is undefined in C++ and is outside the model.
  The time base (\<^verbatim>\<open>start_time_\<close>, \<^verbatim>\<open>samplerate_\<close>) is floating point and is left out.

  The mutexes are not modelled: each step of the decode thread is atomic. What the other
  threads and libsigrokdecode do meanwhile is given by an environment (\<open>env\<close>): the result
  of each \<^verbatim>\<open>srd_session_send\<close> call with the events that arrive during it, and the events
  that wake each wait. A theorem about a run holds for every environment.
\<close>

subsection \<open>Build configuration and failures\<close>

text \<open>
  \<^verbatim>\<open>assert\<close> aborts the program in a build without \<^verbatim>\<open>NDEBUG\<close> and is compiled out
  otherwise. src/CMakeLists.txt selects \<^verbatim>\<open>RelWithDebInfo\<close> when no build type is given,
  which defines \<^verbatim>\<open>NDEBUG\<close>: \<open>NDebug\<close> is the default build.
  Assertions that a pointer is not null are not modelled where the model has a value
  instead of a pointer.
\<close>

datatype build = Debug | NDebug

datatype error = AssertionFailed | UndefinedBehaviour

subsection \<open>Data\<close>

text \<open>libsigrokdecode's decoder schema; \<open>dec_ptr\<close> and \<open>row_ptr\<close> are the addresses that
  the C++ code uses as identities.\<close>

record srd_decoder_annotation_row =
  row_ptr :: nat
  ann_classes :: "int list"

record srd_decoder =
  dec_ptr :: nat
  annotation_rows :: "srd_decoder_annotation_row list"

text \<open>Modelled from the spec: \<^verbatim>\<open>decode::Row\<close> (row.hpp is not part of the sources):
  identity = (decoder identity, optional annotation-class-group identity).
  \<^verbatim>\<open>Row(decc)\<close> is \<open>Row d None\<close>, \<^verbatim>\<open>Row(decc, ann_row)\<close> is \<open>Row d (Some r)\<close>.\<close>

datatype row = Row nat "nat option"

text \<open>Modelled from the spec: \<^verbatim>\<open>decode::Annotation\<close> (annotation.hpp is not part of the
  sources): start sample, end sample, class id (\<^verbatim>\<open>format()\<close>), text representations.\<close>

record annotation =
  start_sample :: nat
  end_sample :: nat
  format :: int
  annotations :: "string list"

text \<open>The \<^verbatim>\<open>srd_proto_data\<close> that libsigrokdecode hands to the callback;
  \<open>pd_decoder\<close> is \<^verbatim>\<open>pdata->pdo->di->decoder\<close>.\<close>

record srd_proto_data =
  pd_start_sample :: nat
  pd_end_sample :: nat
  pd_decoder :: nat
  pd_ann_class :: int
  pd_ann_text :: "string list"

text \<open>Modelled from the spec: the constructor \<^verbatim>\<open>Annotation(pdata)\<close> copies the event.\<close>

definition Annotation :: "srd_proto_data \<Rightarrow> annotation" where
  "Annotation pdata =
     \<lparr>start_sample = pd_start_sample pdata, end_sample = pd_end_sample pdata,
      format = pd_ann_class pdata, annotations = pd_ann_text pdata\<rparr>"

text \<open>Modelled from the spec: \<^verbatim>\<open>decode::RowData\<close> (rowdata.hpp is not part of the sources)
  is an append-only sequence of annotations; a range query returns the annotations that
  overlap \<open>[start, end)\<close>, in stored order, appended to the destination.\<close>

type_synonym rowdata = "annotation list"

definition push_annotation :: "annotation \<Rightarrow> rowdata \<Rightarrow> rowdata" where
  "push_annotation a rd = rd @ [a]"

definition rowdata_get_annotation_subset ::
  "annotation list \<Rightarrow> nat \<Rightarrow> nat \<Rightarrow> rowdata \<Rightarrow> annotation list" where
  "rowdata_get_annotation_subset dest start_s end_s rd =
     dest @ filter (\<lambda>a. start_s < end_sample a \<and> start_sample a < end_s) rd"

text \<open>A logic segment: \<^verbatim>\<open>unit_size()\<close> and the current \<^verbatim>\<open>get_sample_count()\<close>.\<close>

record segment =
  seg_unit_size :: nat
  seg_sample_count :: nat

text \<open>\<^verbatim>\<open>SignalBase::logic_data()\<close>: null, or a \<^verbatim>\<open>Logic\<close> with its deque of segments.\<close>

datatype signalbase = SignalBase (logic_data: "segment list option")

text \<open>\<^verbatim>\<open>decode::Decoder\<close> (decoder.hpp is not part of the sources): what its member
  functions return. \<open>channels\<close> lists the values of the channel map in key order, \<open>None\<close>
  for a null pointer; \<open>create_decoder_inst_ok\<close> tells whether
  \<^verbatim>\<open>create_decoder_inst\<close> returns an instance.\<close>

record decoder =
  decoder :: srd_decoder
  shown :: bool
  have_required_channels :: bool
  channels :: "signalbase option list"
  create_decoder_inst_ok :: bool

text \<open>Modelled from the spec: the external capture state, of which the code reads only
  whether it is \<^verbatim>\<open>Session::Stopped\<close> (session.hpp is not part of the sources).\<close>

datatype capture_state = Stopped | Capturing

text \<open>What the decode thread does to the outside: the calls into libsigrokdecode, the Qt
  signal \<^verbatim>\<open>new_annotations()\<close> and the \<^verbatim>\<open>qDebug\<close> line, in program order.
  \<open>SrdSessionSend i chunk_end size unit_size\<close> carries the numeric arguments of the call.\<close>

datatype effect =
    SrdSessionNew
  | SrdInstNew nat
  | SrdInstStack
  | SrdSessionMetadataSet
  | SrdPdOutputCallbackAdd
  | SrdSessionStart
  | SrdSessionSend int int int nat
  | SrdSessionDestroy
  | NewAnnotations
  | QDebug nat int

text \<open>The object. \<open>decode_thread\<close> is \<^verbatim>\<open>decode_thread_.joinable()\<close>; \<open>capture_state\<close> is
  \<^verbatim>\<open>session_.get_capture_state()\<close>. The last four fields are not in the C++ object:
  \<open>trace\<close> lists the effects so far, \<open>decoded_log\<close> the values that \<^verbatim>\<open>decode_data\<close> has
  assigned to \<^verbatim>\<open>samples_decoded_\<close>, \<open>n_send\<close> and \<open>n_wait\<close> count the calls of
  \<^verbatim>\<open>srd_session_send\<close> and of \<^verbatim>\<open>wait_for_data\<close>.\<close>

record decoder_stack =
  stack :: "decoder list"
  segment :: "segment option"
  sample_count :: int
  annotation_count :: nat
  frame_complete :: bool
  samples_decoded :: int
  error_message :: string
  rows :: "row \<rightharpoonup> rowdata"
  class_rows :: "(nat \<times> int) \<rightharpoonup> row"
  interrupt :: bool
  decode_thread :: bool
  capture_state :: capture_state
  trace :: "effect list"
  decoded_log :: "int list"
  n_send :: nat
  n_wait :: nat

definition DecodeChunkLength :: int where
  "DecodeChunkLength = 10 * 1024 * 1024"

definition DecodeNotifyPeriod :: nat where
  "DecodeNotifyPeriod = 1024"

subsection \<open>The environment\<close>

text \<open>Events caused by other threads: the capture thread appends to the segment and signals
  \<^verbatim>\<open>data_received\<close>, signals \<^verbatim>\<open>frame_ended\<close>, or changes the capture state;
  \<^verbatim>\<open>begin_decode\<close> or the destructor request an interrupt.\<close>

datatype event =
    DataReceived nat
  | FrameEnded
  | InterruptRequested
  | CaptureStateChanged capture_state

text \<open>The result of one \<^verbatim>\<open>srd_session_send\<close> call: whether it returned \<^verbatim>\<open>SRD_OK\<close>, the
  annotations it passed to the callback, and the events that arrived meanwhile.\<close>

record send_result =
  ok :: bool
  anns :: "srd_proto_data list"
  during :: "event list"

text \<open>\<open>send env k\<close> is the result of the \<open>k\<close>-th \<^verbatim>\<open>srd_session_send\<close> call; \<open>wakes env k\<close>
  lists, for the \<open>k\<close>-th \<^verbatim>\<open>wait_for_data\<close> call, the events before each wake-up of the
  condition variable.\<close>

record env =
  build :: build
  send :: "nat \<Rightarrow> send_result"
  wakes :: "nat \<Rightarrow> event list list"

subsection \<open>Stack management\<close>

definition push :: "decoder \<Rightarrow> decoder_stack \<Rightarrow> decoder_stack" where
  "push d s = s\<lparr>stack := stack s @ [d]\<rparr>"

text \<open>The iterator of \<^verbatim>\<open>remove\<close> is a position \<open>0 .. length\<close>, \<open>length\<close> being \<^verbatim>\<open>end()\<close>.
  \<open>advance b n len pos\<close> runs the \<^verbatim>\<open>for\<close> loop for \<open>n\<close> more rounds: the assertion in its
  body, then \<^verbatim>\<open>iter++\<close>, which is undefined at \<^verbatim>\<open>end()\<close>.\<close>

fun advance :: "build \<Rightarrow> nat \<Rightarrow> nat \<Rightarrow> nat \<Rightarrow> error + nat" where
  "advance b 0 len pos = Inr pos"
| "advance b (Suc n) len pos =
     (if b = Debug \<and> \<not> pos \<noteq> len then Inl AssertionFailed
      else if pos = len then Inl UndefinedBehaviour
      else advance b n len (Suc pos))"

definition erase :: "nat \<Rightarrow> 'a list \<Rightarrow> error + 'a list" where
  "erase pos xs =
     (if pos < length xs then Inr (take pos xs @ drop (Suc pos) xs)
      else Inl UndefinedBehaviour)"

definition remove :: "build \<Rightarrow> int \<Rightarrow> decoder_stack \<Rightarrow> error + decoder_stack" where
  "remove b index s =
     (if b = Debug \<and> \<not> index \<ge> 0 then Inl AssertionFailed
      else if b = Debug \<and> \<not> index < int (length (stack s)) then Inl AssertionFailed
      else case advance b (nat index) (length (stack s)) 0 of
             Inl e \<Rightarrow> Inl e
           | Inr iter \<Rightarrow>
               (case erase iter (stack s) of
                  Inl e \<Rightarrow> Inl e
                | Inr st \<Rightarrow> Inr (s\<lparr>stack := st\<rparr>)))"

subsection \<open>Queries\<close>

definition decoder_rows :: "srd_decoder \<Rightarrow> row list" where
  "decoder_rows decc =
     (if annotation_rows decc = [] then [Row (dec_ptr decc) None] else []) @
     map (\<lambda>ann_row. Row (dec_ptr decc) (Some (row_ptr ann_row))) (annotation_rows decc)"

definition get_visible_rows :: "decoder_stack \<Rightarrow> row list" where
  "get_visible_rows s =
     concat (map (\<lambda>dec. if \<not> shown dec then [] else decoder_rows (decoder dec)) (stack s))"

definition inc_annotation_count :: "decoder_stack \<Rightarrow> nat \<times> decoder_stack" where
  "inc_annotation_count s =
     (annotation_count s, s\<lparr>annotation_count := (annotation_count s + 1) mod 2 ^ 64\<rparr>)"

definition get_annotation_subset ::
  "decoder_stack \<Rightarrow> annotation list \<Rightarrow> row \<Rightarrow> nat \<Rightarrow> nat \<Rightarrow> annotation list" where
  "get_annotation_subset s dest r start_s end_s =
     (case rows s r of
        Some rd \<Rightarrow> rowdata_get_annotation_subset dest start_s end_s rd
      | None \<Rightarrow> dest)"

subsection \<open>Starting a run\<close>

definition clear :: "decoder_stack \<Rightarrow> decoder_stack" where
  "clear s =
     s\<lparr>sample_count := 0, annotation_count := 0, frame_complete := False,
       samples_decoded := 0, error_message := [], rows := Map.empty,
       class_rows := Map.empty\<rparr>"

text \<open>The body of the \<^verbatim>\<open>// Add classes\<close> loop for one annotation row of a decoder, for
  all rows of one decoder, and for the whole stack.\<close>

definition add_ann_row :: "srd_decoder \<Rightarrow> srd_decoder_annotation_row \<Rightarrow>
    decoder_stack \<Rightarrow> decoder_stack" where
  "add_ann_row decc ann_row s =
     (let r = Row (dec_ptr decc) (Some (row_ptr ann_row));
          s1 = s\<lparr>rows := (rows s)(r \<mapsto> [])\<rparr>
      in s1\<lparr>class_rows :=
              fold (\<lambda>c m. m((dec_ptr decc, c) \<mapsto> r)) (ann_classes ann_row) (class_rows s1)\<rparr>)"

definition add_decoder_classes :: "decoder \<Rightarrow> decoder_stack \<Rightarrow> decoder_stack" where
  "add_decoder_classes dec s =
     (let decc = decoder dec;
          s1 = (if annotation_rows decc = []
                then s\<lparr>rows := (rows s)(Row (dec_ptr decc) None \<mapsto> [])\<rparr> else s)
      in fold (add_ann_row decc) (annotation_rows decc) s1)"

definition add_classes :: "decoder_stack \<Rightarrow> decoder_stack" where
  "add_classes s = fold add_decoder_classes (stack s) s"

text \<open>The search for the logic data of the first channel: the first decoder whose channel map
  is not empty, whose first channel has a signal base, and whose signal base has logic data.\<close>

fun find_logic_data :: "decoder list \<Rightarrow> segment list option" where
  "find_logic_data [] = None"
| "find_logic_data (dec # ds) =
     (case channels dec of
        [] \<Rightarrow> find_logic_data ds
      | None # _ \<Rightarrow> find_logic_data ds
      | Some signalbase # _ \<Rightarrow>
          (case logic_data signalbase of
             None \<Rightarrow> find_logic_data ds
           | Some data \<Rightarrow> Some data))"

text \<open>Joining the previous decode thread: the interrupt is requested and the call waits until
  \<^verbatim>\<open>decode_proc\<close> has returned. The state given to \<open>begin_decode\<close> is the state after that
  thread has finished; all theorems about \<open>begin_decode\<close> hold for every such state.\<close>

definition join_decode_thread :: "decoder_stack \<Rightarrow> decoder_stack" where
  "join_decode_thread s =
     (if decode_thread s then s\<lparr>interrupt := True, decode_thread := False\<rparr> else s)"

text \<open>\<open>decode_thread\<close> is true in the result exactly if the call has started a thread, which
  then runs \<open>decode_proc\<close>.\<close>

definition begin_decode :: "decoder_stack \<Rightarrow> decoder_stack" where
  "begin_decode s0 =
     (let s = clear (join_decode_thread s0) in
      if \<exists>dec \<in> set (stack s). \<not> have_required_channels dec
      then s\<lparr>error_message := ''One or more required channels have not been specified''\<rparr>
      else
        let s1 = add_classes s in
        case find_logic_data (stack s1) of
          None \<Rightarrow> s1
        | Some segments \<Rightarrow>
            (case segments of
               [] \<Rightarrow> s1
             | front # _ \<Rightarrow>
                 s1\<lparr>segment := Some front, interrupt := False, decode_thread := True\<rparr>))"

definition on_new_frame :: "decoder_stack \<Rightarrow> decoder_stack" where
  "on_new_frame s = begin_decode s"

subsection \<open>Notifications from the capture\<close>

definition on_data_received :: "decoder_stack \<Rightarrow> decoder_stack" where
  "on_data_received s =
     (case segment s of
        None \<Rightarrow> s
      | Some seg \<Rightarrow> s\<lparr>sample_count := int (seg_sample_count seg)\<rparr>)"

definition on_frame_ended :: "decoder_stack \<Rightarrow> decoder_stack" where
  "on_frame_ended s =
     (case segment s of
        None \<Rightarrow> s
      | Some seg \<Rightarrow> s\<lparr>frame_complete := True\<rparr>)"

text \<open>\<open>DataReceived n\<close>: the capture thread has grown the segment to \<open>n\<close> samples and signals
  \<^verbatim>\<open>data_received\<close>.\<close>

fun apply_event :: "event \<Rightarrow> decoder_stack \<Rightarrow> decoder_stack" where
  "apply_event (DataReceived n) s =
     on_data_received (s\<lparr>segment := map_option (\<lambda>seg. seg\<lparr>seg_sample_count := n\<rparr>) (segment s)\<rparr>)"
| "apply_event FrameEnded s = on_frame_ended s"
| "apply_event InterruptRequested s = s\<lparr>interrupt := True\<rparr>"
| "apply_event (CaptureStateChanged c) s = s\<lparr>capture_state := c\<rparr>"

definition apply_events :: "event list \<Rightarrow> decoder_stack \<Rightarrow> decoder_stack" where
  "apply_events es s = fold apply_event es s"

subsection \<open>Waiting for data\<close>

text \<open>The condition of the \<^verbatim>\<open>while\<close> loop around \<^verbatim>\<open>input_cond_.wait\<close>.\<close>

definition must_wait :: "decoder_stack \<Rightarrow> bool" where
  "must_wait s \<longleftrightarrow>
     \<not> interrupt s \<and> \<not> frame_complete s \<and>
     samples_decoded s \<ge> sample_count s \<and>
     capture_state s \<noteq> Stopped"

text \<open>The loop: each wake-up of the condition variable comes after a batch of events. When
  the batches run out while the condition still holds, the thread stays blocked: \<open>None\<close>.\<close>

fun wait_loop :: "event list list \<Rightarrow> decoder_stack \<Rightarrow> decoder_stack option" where
  "wait_loop [] s = (if must_wait s then None else Some s)"
| "wait_loop (b # bs) s = (if must_wait s then wait_loop bs (apply_events b s) else Some s)"

definition make_optional :: "bool \<Rightarrow> 'a \<Rightarrow> 'a option" where
  "make_optional c v = (if c then Some v else None)"

text \<open>The returned optional, computed from the state in which the loop was left. The member
  function is const: the state that \<open>wait_for_data\<close> returns differs from its argument by
  the events of the other threads only.\<close>

definition wait_result :: "decoder_stack \<Rightarrow> int option" where
  "wait_result s =
     make_optional
       (\<not> interrupt s \<and>
        (samples_decoded s < sample_count s \<or> \<not> frame_complete s) \<and>
        \<not> (samples_decoded s \<ge> sample_count s \<and> capture_state s = Stopped))
       (sample_count s)"

definition wait_for_data ::
  "event list list \<Rightarrow> decoder_stack \<Rightarrow> (int option \<times> decoder_stack) option" where
  "wait_for_data bs s =
     (case wait_loop bs s of
        None \<Rightarrow> None
      | Some s' \<Rightarrow> Some (wait_result s', s'))"

subsection \<open>The annotation callback\<close>

text \<open>The row iterator of the callback: \<^verbatim>\<open>rows_.end()\<close> is \<open>None\<close>.\<close>

definition find_row :: "decoder_stack \<Rightarrow> nat \<Rightarrow> int \<Rightarrow> (row \<times> rowdata) option" where
  "find_row s decc fmt =
     (case class_rows s (decc, fmt) of
        Some r \<Rightarrow> map_option (Pair r) (rows s r)
      | None \<Rightarrow> map_option (Pair (Row decc None)) (rows s (Row decc None)))"

definition annotation_callback ::
  "build \<Rightarrow> srd_proto_data \<Rightarrow> decoder_stack \<Rightarrow> error + decoder_stack" where
  "annotation_callback b pdata s =
     (let a = Annotation pdata; decc = pd_decoder pdata in
      case find_row s decc (format a) of
        None \<Rightarrow>
          if b = Debug then Inl AssertionFailed
          else Inr (s\<lparr>trace := trace s @ [QDebug decc (format a)]\<rparr>)
      | Some (r, rd) \<Rightarrow>
          let s1 = s\<lparr>rows := (rows s)(r \<mapsto> push_annotation a rd)\<rparr>;
              (c, s2) = inc_annotation_count s1
          in Inr (if c mod DecodeNotifyPeriod = 0
                  then s2\<lparr>trace := trace s2 @ [NewAnnotations]\<rparr> else s2))"

text \<open>The callbacks of one \<^verbatim>\<open>srd_session_send\<close> call, in the order of emission.\<close>

fun callbacks :: "build \<Rightarrow> srd_proto_data list \<Rightarrow> decoder_stack \<Rightarrow> error + decoder_stack" where
  "callbacks b [] s = Inr s"
| "callbacks b (pdata # ps) s =
     (case annotation_callback b pdata s of
        Inl e \<Rightarrow> Inl e
      | Inr s' \<Rightarrow> callbacks b ps s')"

subsection \<open>Feeding the engine\<close>

text \<open>\<^verbatim>\<open>const unsigned int chunk_sample_count = DecodeChunkLength / segment_->unit_size()\<close>.\<close>

definition chunk_sample_count :: "nat \<Rightarrow> int" where
  "chunk_sample_count unit_sz = (DecodeChunkLength div int unit_sz) mod 2 ^ 32"

text \<open>One \<^verbatim>\<open>srd_session_send\<close> call: the effect, the callbacks it makes, the events that
  arrive meanwhile; the result tells whether it returned \<^verbatim>\<open>SRD_OK\<close>.\<close>

definition srd_session_send ::
  "env \<Rightarrow> int \<Rightarrow> int \<Rightarrow> nat \<Rightarrow> decoder_stack \<Rightarrow> error + (bool \<times> decoder_stack)" where
  "srd_session_send e i chunk_end unit_sz s =
     (let r = send e (n_send s);
          s1 = s\<lparr>trace := trace s @
                   [SrdSessionSend i chunk_end ((chunk_end - i) * int unit_sz) unit_sz],
                 n_send := Suc (n_send s)\<rparr>
      in case callbacks (build e) (anns r) s1 of
           Inl err \<Rightarrow> Inl err
         | Inr s2 \<Rightarrow> Inr (ok r, apply_events (during r) s2))"

text \<open>The \<^verbatim>\<open>for\<close> loop of \<^verbatim>\<open>decode_data\<close>, from sample \<open>i\<close>. \<open>None\<close>: the loop never ends
  (possible only when the chunk has no samples).\<close>

partial_function (option) decode_data_loop ::
  "env \<Rightarrow> int \<Rightarrow> int \<Rightarrow> nat \<Rightarrow> int \<Rightarrow> decoder_stack \<Rightarrow> (error + decoder_stack) option" where
  "decode_data_loop e chunk n unit_sz i s =
     (if \<not> interrupt s \<and> i < n then
        (case srd_session_send e i (min (i + chunk) n) unit_sz s of
           Inl err \<Rightarrow> Some (Inl err)
         | Inr (success, s1) \<Rightarrow>
             if \<not> success
             then Some (Inr (s1\<lparr>error_message := ''Decoder reported an error''\<rparr>))
             else decode_data_loop e chunk n unit_sz (i + chunk)
                    (s1\<lparr>samples_decoded := min (i + chunk) n,
                        decoded_log := decoded_log s1 @ [min (i + chunk) n]\<rparr>))
      else Some (Inr s))"

declare decode_data_loop.simps [code]

definition decode_data ::
  "env \<Rightarrow> int \<Rightarrow> int \<Rightarrow> nat \<Rightarrow> decoder_stack \<Rightarrow> (error + decoder_stack) option" where
  "decode_data e abs_start_samplenum n unit_sz s =
     (case segment s of
        None \<Rightarrow> Some (Inl UndefinedBehaviour)
      | Some seg \<Rightarrow>
          if seg_unit_size seg = 0 then Some (Inl UndefinedBehaviour)
          else decode_data_loop e (chunk_sample_count (seg_unit_size seg)) n unit_sz
                 abs_start_samplenum s)"

subsection \<open>The decode thread\<close>

text \<open>The loop that creates the decoder instances; \<open>prev_di\<close> tells whether an instance has
  been created before. The result is false when an instance could not be created.\<close>

fun create_decoders :: "decoder list \<Rightarrow> bool \<Rightarrow> decoder_stack \<Rightarrow> bool \<times> decoder_stack" where
  "create_decoders [] prev_di s = (True, s)"
| "create_decoders (dec # ds) prev_di s =
     (if \<not> create_decoder_inst_ok dec
      then (False, s\<lparr>error_message := ''Failed to create decoder instance'',
                     trace := trace s @ [SrdSessionDestroy]\<rparr>)
      else
        let s1 = s\<lparr>trace := trace s @ [SrdInstNew (dec_ptr (decoder dec))]\<rparr>;
            s2 = (if prev_di then s1\<lparr>trace := trace s1 @ [SrdInstStack]\<rparr> else s1)
        in create_decoders ds True s2)"

text \<open>The \<^verbatim>\<open>do ... while\<close> loop of \<^verbatim>\<open>decode_proc\<close>. \<open>None\<close>: the thread never leaves
  the loop (it stays blocked in a wait, or it runs forever).\<close>

partial_function (option) decode_proc_loop ::
  "env \<Rightarrow> nat \<Rightarrow> int \<Rightarrow> int \<Rightarrow> decoder_stack \<Rightarrow> (error + decoder_stack) option" where
  "decode_proc_loop e unit_sz abs_start_samplenum n s =
     (case decode_data e abs_start_samplenum n unit_sz s of
        None \<Rightarrow> None
      | Some (Inl err) \<Rightarrow> Some (Inl err)
      | Some (Inr s1) \<Rightarrow>
          if \<not> (error_message s1 = []) then Some (Inr s1)
          else
            (case wait_for_data (wakes e (n_wait s1)) (s1\<lparr>n_wait := Suc (n_wait s1)\<rparr>) of
               None \<Rightarrow> None
             | Some (None, s2) \<Rightarrow> Some (Inr s2)
             | Some (Some n', s2) \<Rightarrow> decode_proc_loop e unit_sz n n' s2))"

declare decode_proc_loop.simps [code]

text \<open>\<^verbatim>\<open>srd_session_new\<close> is taken to succeed. Without a segment, \<^verbatim>\<open>assert(segment_)\<close>
  fails, or the null pointer is dereferenced.\<close>

definition decode_proc :: "env \<Rightarrow> decoder_stack \<Rightarrow> (error + decoder_stack) option" where
  "decode_proc e s =
     (case segment s of
        None \<Rightarrow> Some (Inl (if build e = Debug then AssertionFailed else UndefinedBehaviour))
      | Some seg \<Rightarrow>
          (let s1 = s\<lparr>trace := trace s @ [SrdSessionNew]\<rparr>;
               unit_sz = seg_unit_size seg;
               (created, s2) = create_decoders (stack s1) False s1
           in if \<not> created then Some (Inr s2)
              else
                (let s3 = s2\<lparr>sample_count := int (seg_sample_count seg)\<rparr>;
                     s4 = s3\<lparr>trace := trace s3 @
                            [SrdSessionMetadataSet, SrdPdOutputCallbackAdd, SrdSessionStart]\<rparr>
                 in (case decode_proc_loop e unit_sz 0 (sample_count s4) s4 of
                       None \<Rightarrow> None
                     | Some (Inl err) \<Rightarrow> Some (Inl err)
                     | Some (Inr s5) \<Rightarrow>
                         Some (Inr (s5\<lparr>trace := trace s5 @
                                       [NewAnnotations, SrdSessionDestroy]\<rparr>))))))"

section \<open>Predicates used in the statements\<close>

text \<open>Which fields a step leaves alone: the fields written by the decode thread's own code
  (\<open>same_progress\<close>), the fields written by the other threads (\<open>same_input\<close>), the fields
  written by the annotation callback (\<open>same_output\<close>).\<close>

definition same_progress :: "decoder_stack \<Rightarrow> decoder_stack \<Rightarrow> bool" where
  "same_progress s s' \<longleftrightarrow>
     samples_decoded s' = samples_decoded s \<and> error_message s' = error_message s \<and>
     decoded_log s' = decoded_log s \<and> n_send s' = n_send s \<and> n_wait s' = n_wait s \<and>
     stack s' = stack s \<and> decode_thread s' = decode_thread s"

definition same_input :: "decoder_stack \<Rightarrow> decoder_stack \<Rightarrow> bool" where
  "same_input s s' \<longleftrightarrow>
     segment s' = segment s \<and> sample_count s' = sample_count s \<and>
     frame_complete s' = frame_complete s \<and> interrupt s' = interrupt s \<and>
     capture_state s' = capture_state s"

definition same_output :: "decoder_stack \<Rightarrow> decoder_stack \<Rightarrow> bool" where
  "same_output s s' \<longleftrightarrow>
     rows s' = rows s \<and> class_rows s' = class_rows s \<and>
     annotation_count s' = annotation_count s \<and> trace s' = trace s"

text \<open>Every row keeps its annotations and may have got more at its end; no row appears or
  disappears.\<close>

definition rows_extend :: "decoder_stack \<Rightarrow> decoder_stack \<Rightarrow> bool" where
  "rows_extend s s' \<longleftrightarrow> (\<forall>r. rel_option prefix (rows s r) (rows s' r))"

text \<open>The trace has grown, by effects other than the destruction of the session.\<close>

definition trace_extend :: "decoder_stack \<Rightarrow> decoder_stack \<Rightarrow> bool" where
  "trace_extend s s' \<longleftrightarrow>
     (\<exists>t. trace s' = trace s @ t \<and> SrdSessionDestroy \<notin> set t)"

text \<open>What the decode thread keeps while it runs: the stack, the thread handle and the class
  map stay, the counters and the interrupt flag only go up, rows and trace only grow.\<close>

definition same_setup :: "decoder_stack \<Rightarrow> decoder_stack \<Rightarrow> bool" where
  "same_setup s s' \<longleftrightarrow>
     stack s' = stack s \<and> decode_thread s' = decode_thread s \<and>
     class_rows s' = class_rows s \<and> n_send s \<le> n_send s' \<and> n_wait s \<le> n_wait s' \<and>
     (interrupt s \<longrightarrow> interrupt s') \<and> rows_extend s s' \<and> trace_extend s s'"

text \<open>All \<^verbatim>\<open>srd_session_send\<close> calls made between two states returned \<^verbatim>\<open>SRD_OK\<close>.\<close>

definition sends_ok :: "env \<Rightarrow> decoder_stack \<Rightarrow> decoder_stack \<Rightarrow> bool" where
  "sends_ok e s s' \<longleftrightarrow> (\<forall>k. n_send s \<le> k \<and> k < n_send s' \<longrightarrow> ok (send e k))"

text \<open>The bookkeeping of the calls between two states: a call that failed is the last one,
  it has left the error message, and one value was assigned to \<^verbatim>\<open>samples_decoded_\<close> for
  each call before it; when no call failed, the error message is unchanged and each call
  has assigned one value.\<close>

definition send_accounting :: "env \<Rightarrow> decoder_stack \<Rightarrow> decoder_stack \<Rightarrow> bool" where
  "send_accounting e s s' \<longleftrightarrow>
     n_send s \<le> n_send s' \<and>
     (\<forall>k. n_send s \<le> k \<and> k < n_send s' \<and> \<not> ok (send e k) \<longrightarrow>
        n_send s' = Suc k \<and> error_message s' = ''Decoder reported an error'' \<and>
        length (decoded_log s') = length (decoded_log s) + (k - n_send s)) \<and>
     (sends_ok e s s' \<longrightarrow>
        error_message s' = error_message s \<and>
        length (decoded_log s') = length (decoded_log s) + (n_send s' - n_send s))"

text \<open>Every decoder of the stack gets its instance.\<close>

definition all_created :: "decoder_stack \<Rightarrow> bool" where
  "all_created s \<longleftrightarrow> (\<forall>dec \<in> set (stack s). create_decoder_inst_ok dec)"

text \<open>The effects of the loop that creates the instances, up to the first decoder that gets
  none.\<close>

fun inst_effects :: "decoder list \<Rightarrow> bool \<Rightarrow> effect list" where
  "inst_effects [] prev_di = []"
| "inst_effects (dec # ds) prev_di =
     (if \<not> create_decoder_inst_ok dec then []
      else SrdInstNew (dec_ptr (decoder dec)) # (if prev_di then [SrdInstStack] else []) @
           inst_effects ds True)"

text \<open>The sample ranges of the \<^verbatim>\<open>srd_session_send\<close> calls in a trace, and the number of
  \<^verbatim>\<open>new_annotations()\<close> signals in it.\<close>

fun send_ranges :: "effect list \<Rightarrow> (int \<times> int) list" where
  "send_ranges [] = []"
| "send_ranges (SrdSessionSend i chunk_end sz u # t) = (i, chunk_end) # send_ranges t"
| "send_ranges (x # t) = send_ranges t"

definition notifications :: "effect list \<Rightarrow> nat" where
  "notifications t = length (filter (\<lambda>x. x = NewAnnotations) t)"

text \<open>The number of chunks between sample \<open>a\<close> and sample \<open>n\<close>: the quotient
  \<open>(n - a) / chunk\<close>, rounded up.\<close>

definition chunk_count :: "int \<Rightarrow> int \<Rightarrow> int \<Rightarrow> nat" where
  "chunk_count a n chunk = nat ((n - a + chunk - 1) div chunk)"

text \<open>The callback finds a row for the annotation.\<close>

definition resolves :: "decoder_stack \<Rightarrow> srd_proto_data \<Rightarrow> bool" where
  "resolves s pdata \<longleftrightarrow> find_row s (pd_decoder pdata) (pd_ann_class pdata) \<noteq> None"

text \<open>No row holds an annotation.\<close>

definition rows_empty :: "decoder_stack \<Rightarrow> bool" where
  "rows_empty s \<longleftrightarrow> (\<forall>r rd. rows s r = Some rd \<longrightarrow> rd = [])"

text \<open>No wake-up of a wait reports samples: the segment stays empty.\<close>

definition no_new_samples :: "event list list \<Rightarrow> bool" where
  "no_new_samples bs \<longleftrightarrow> (\<forall>b \<in> set bs. \<forall>n. DataReceived n \<in> set b \<longrightarrow> n = 0)"

section \<open>An example\<close>

text \<open>A stack of two decoders on a one-byte segment of 25,000,000 samples: the first decoder
  declares two annotation rows, the second none. The object is as the constructor leaves
  it. \<open>ex_waiting\<close> has decoded 100 samples and has no more; in \<open>ex_unbound\<close> the second
  decoder lacks a required channel and a decode thread is still joinable.\<close>

definition ex_uart :: srd_decoder where
  "ex_uart = \<lparr>dec_ptr = 1, annotation_rows =
     [\<lparr>row_ptr = 10, ann_classes = [0, 1]\<rparr>, \<lparr>row_ptr = 11, ann_classes = [2]\<rparr>]\<rparr>"

definition ex_midi :: srd_decoder where
  "ex_midi = \<lparr>dec_ptr = 2, annotation_rows = []\<rparr>"

definition ex_segment :: segment where
  "ex_segment = \<lparr>seg_unit_size = 1, seg_sample_count = 25000000\<rparr>"

definition ex_decoder :: "srd_decoder \<Rightarrow> decoder" where
  "ex_decoder decc =
     \<lparr>decoder = decc, shown = True, have_required_channels = True,
      channels = [Some (SignalBase (Some [ex_segment]))], create_decoder_inst_ok = True\<rparr>"

definition ex_stack :: decoder_stack where
  "ex_stack =
     \<lparr>stack = [ex_decoder ex_uart, ex_decoder ex_midi], segment = None, sample_count = 0,
      annotation_count = 0, frame_complete = False, samples_decoded = 0, error_message = [],
      rows = Map.empty, class_rows = Map.empty, interrupt = False, decode_thread = False,
      capture_state = Capturing, trace = [], decoded_log = [], n_send = 0, n_wait = 0\<rparr>"

definition ex_waiting :: decoder_stack where
  "ex_waiting =
     ex_stack\<lparr>segment := Some ex_segment, sample_count := 100, samples_decoded := 100\<rparr>"

definition ex_unbound :: decoder_stack where
  "ex_unbound =
     ex_waiting\<lparr>stack := [ex_decoder ex_uart,
                            (ex_decoder ex_midi)\<lparr>have_required_channels := False\<rparr>],
                decode_thread := True\<rparr>"

definition ex_annotation :: annotation where
  "ex_annotation = \<lparr>start_sample = 3, end_sample = 8, format = 0, annotations = [''Start'']\<rparr>"

text \<open>The \<open>k\<close>-th call of the engine emits one annotation of class 0 of the first decoder.
  In \<open>ex_env\<close> every call succeeds, in \<open>ex_env_fail\<close> the second call fails; each wait is
  woken by the end of the frame.\<close>

definition ex_pdata :: "nat \<Rightarrow> srd_proto_data" where
  "ex_pdata k = \<lparr>pd_start_sample = k, pd_end_sample = k + 5, pd_decoder = 1,
     pd_ann_class = 0, pd_ann_text = [''Start'']\<rparr>"

definition ex_env :: env where
  "ex_env = \<lparr>build = NDebug,
     send = (\<lambda>k. \<lparr>ok = True, anns = [ex_pdata k], during = []\<rparr>),
     wakes = (\<lambda>k. [[FrameEnded]])\<rparr>"

definition ex_env_fail :: env where
  "ex_env_fail = \<lparr>build = NDebug,
     send = (\<lambda>k. \<lparr>ok = (k \<noteq> 1), anns = [ex_pdata k], during = []\<rparr>),
     wakes = (\<lambda>k. [[FrameEnded]])\<rparr>"

text \<open>An annotation of class \<open>c\<close> of the decoder \<open>d\<close>.\<close>

definition ex_pdata_of :: "nat \<Rightarrow> int \<Rightarrow> srd_proto_data" where
  "ex_pdata_of d c = \<lparr>pd_start_sample = 3, pd_end_sample = 8, pd_decoder = d,
     pd_ann_class = c, pd_ann_text = [''Start'']\<rparr>"

text \<open>The object after a run that ended with an error: one decoder on a segment that is now
  empty, the capture stopped, the old thread still joinable, and the results of the old run
  in all fields.\<close>

definition ex_dirty :: decoder_stack where
  "ex_dirty =
     \<lparr>stack = [\<lparr>decoder = ex_uart, shown = True, have_required_channels = True,
                channels = [Some (SignalBase (Some [\<lparr>seg_unit_size = 1, seg_sample_count = 0\<rparr>]))],
                create_decoder_inst_ok = True\<rparr>],
      segment = Some ex_segment, sample_count = 500,
      annotation_count = 7, frame_complete = True, samples_decoded = 500,
      error_message = ''Decoder reported an error'',
      rows = [Row 1 (Some 10) \<mapsto> [ex_annotation]], class_rows = [(1, 0) \<mapsto> Row 1 (Some 10)],
      interrupt = False, decode_thread = True,
      capture_state = Stopped, trace = [], decoded_log = [500], n_send = 1, n_wait = 1\<rparr>"

section \<open>Auxiliary lemmas\<close>

subsection \<open>What the steps leave alone\<close>


lemma annotation_callback_frame:
  assumes "annotation_callback b pdata s = Inr s'"
  shows "same_progress s s'" and "same_input s s'" and "class_rows s' = class_rows s"
  using assms
  by (auto simp: annotation_callback_def inc_annotation_count_def same_progress_def
      same_input_def Let_def split: option.splits if_splits prod.splits)

lemma apply_event_frame:
  shows "same_progress s (apply_event ev s)" and "same_output s (apply_event ev s)"
  by (cases ev; simp add: same_progress_def same_output_def on_data_received_def
      on_frame_ended_def split: option.splits)+




lemma rows_extend_refl: "rows_extend s s"
  by (simp add: rows_extend_def option.rel_refl)

lemma rows_extend_trans: "rows_extend s s1 \<Longrightarrow> rows_extend s1 s2 \<Longrightarrow> rows_extend s s2"
  unfolding rows_extend_def
proof
  fix r
  assume a: "\<forall>r. rel_option prefix (rows s r) (rows s1 r)"
    and b: "\<forall>r. rel_option prefix (rows s1 r) (rows s2 r)"
  from a have "rel_option prefix (rows s r) (rows s1 r)" by simp
  moreover from b have "rel_option prefix (rows s1 r) (rows s2 r)" by simp
  ultimately show "rel_option prefix (rows s r) (rows s2 r)"
    by (cases "rows s r"; cases "rows s1 r"; cases "rows s2 r") auto
qed

lemma trace_extend_refl: "trace_extend s s"
  by (simp add: trace_extend_def)

lemma trace_extend_trans: "trace_extend s s1 \<Longrightarrow> trace_extend s1 s2 \<Longrightarrow> trace_extend s s2"
  by (auto simp: trace_extend_def)

lemma same_progress_refl: "same_progress s s"
  by (simp add: same_progress_def)

lemma same_progress_trans: "same_progress s s1 \<Longrightarrow> same_progress s1 s2 \<Longrightarrow> same_progress s s2"
  by (simp add: same_progress_def)

lemma same_input_refl: "same_input s s"
  by (simp add: same_input_def)

lemma same_input_trans: "same_input s s1 \<Longrightarrow> same_input s1 s2 \<Longrightarrow> same_input s s2"
  by (simp add: same_input_def)

lemma same_output_refl: "same_output s s"
  by (simp add: same_output_def)

lemma same_output_trans: "same_output s s1 \<Longrightarrow> same_output s1 s2 \<Longrightarrow> same_output s s2"
  by (simp add: same_output_def)

lemma find_row_Some: "find_row s d c = Some (r, rd) \<Longrightarrow> rows s r = Some rd"
  by (auto simp: find_row_def split: option.splits)

lemma annotation_callback_rows:
  assumes "annotation_callback b pdata s = Inr s'"
  shows "rows_extend s s'"
  using assms
  by (auto simp: annotation_callback_def inc_annotation_count_def rows_extend_def Let_def
      push_annotation_def option.rel_refl dest!: find_row_Some
      split: option.splits if_splits prod.splits)

lemma annotation_callback_trace:
  assumes "annotation_callback b pdata s = Inr s'"
  shows "trace_extend s s'"
  using assms
  by (auto simp: annotation_callback_def inc_annotation_count_def trace_extend_def Let_def
      split: option.splits if_splits prod.splits)

lemma callbacks_frame:
  "callbacks b ps s = Inr s' \<Longrightarrow>
     same_progress s s' \<and> same_input s s' \<and> class_rows s' = class_rows s \<and>
     rows_extend s s' \<and> trace_extend s s'"
proof (induction ps arbitrary: s)
  case Nil
  then show ?case
    by (simp add: same_progress_refl same_input_refl rows_extend_refl trace_extend_refl)
next
  case (Cons pdata ps)
  from Cons.prems obtain s1 where
    1: "annotation_callback b pdata s = Inr s1" and 2: "callbacks b ps s1 = Inr s'"
    by (auto split: sum.splits)
  note a = annotation_callback_frame [OF 1] annotation_callback_rows [OF 1]
    annotation_callback_trace [OF 1]
  note c = Cons.IH [OF 2]
  from a c show ?case
    by (metis same_progress_trans same_input_trans rows_extend_trans trace_extend_trans)
qed

lemma apply_events_frame:
  "same_progress s (apply_events es s) \<and> same_output s (apply_events es s)"
  unfolding apply_events_def
proof (induction es arbitrary: s)
  case Nil
  then show ?case by (simp add: same_progress_refl same_output_refl)
next
  case (Cons ev es)
  show ?case
    using Cons.IH [of "apply_event ev s"] apply_event_frame [of s ev]
    by (auto intro: same_progress_trans same_output_trans)
qed

lemma apply_event_interrupt: "interrupt s \<Longrightarrow> interrupt (apply_event ev s)"
  by (cases ev) (simp_all add: on_data_received_def on_frame_ended_def split: option.splits)

lemma apply_events_interrupt: "interrupt s \<Longrightarrow> interrupt (apply_events es s)"
  unfolding apply_events_def
  by (induction es arbitrary: s) (simp_all add: apply_event_interrupt)

lemma callbacks_NDebug: "\<exists>s'. callbacks NDebug ps s = Inr s'"
  by (induction ps arbitrary: s)
    (auto simp: annotation_callback_def Let_def split: option.splits prod.splits sum.splits)

subsection \<open>The decode thread\<close>

lemma srd_session_send_props:
  assumes "srd_session_send e i ce u s = Inr (okv, s1)"
  shows "okv = ok (send e (n_send s))"
    and "n_send s1 = Suc (n_send s)"
    and "samples_decoded s1 = samples_decoded s"
    and "error_message s1 = error_message s"
    and "decoded_log s1 = decoded_log s"
    and "n_wait s1 = n_wait s"
    and "stack s1 = stack s"
    and "decode_thread s1 = decode_thread s"
    and "class_rows s1 = class_rows s"
    and "rows_extend s s1"
    and "trace_extend s s1"
    and "interrupt s \<Longrightarrow> interrupt s1"
proof -
  define s0 where "s0 = s\<lparr>trace := trace s @
      [SrdSessionSend i ce ((ce - i) * int u) u], n_send := Suc (n_send s)\<rparr>"
  from assms obtain s2 where
    cb: "callbacks (build e) (anns (send e (n_send s))) s0 = Inr s2"
    and okv: "okv = ok (send e (n_send s))"
    and s1: "s1 = apply_events (during (send e (n_send s))) s2"
    by (auto simp: srd_session_send_def Let_def s0_def split: sum.splits)
  note c = callbacks_frame [OF cb]
  note a = apply_events_frame [of s2 "during (send e (n_send s))"]
  show "okv = ok (send e (n_send s))" by (rule okv)
  from c a show "n_send s1 = Suc (n_send s)"
    by (simp add: s1 s0_def same_progress_def)
  from c a show "samples_decoded s1 = samples_decoded s"
    by (simp add: s1 s0_def same_progress_def)
  from c a show "error_message s1 = error_message s"
    by (simp add: s1 s0_def same_progress_def)
  from c a show "decoded_log s1 = decoded_log s"
    by (simp add: s1 s0_def same_progress_def)
  from c a show "n_wait s1 = n_wait s"
    by (simp add: s1 s0_def same_progress_def)
  from c a show "stack s1 = stack s"
    by (simp add: s1 s0_def same_progress_def)
  from c a show "decode_thread s1 = decode_thread s"
    by (simp add: s1 s0_def same_progress_def)
  from c a show "class_rows s1 = class_rows s"
    by (simp add: s1 s0_def same_output_def)
  from c a show "rows_extend s s1"
    by (simp add: s1 s0_def same_output_def rows_extend_def)
  from c a show "trace_extend s s1"
    by (auto simp: s1 s0_def same_output_def trace_extend_def)
  show "interrupt s1" if "interrupt s"
  proof -
    from c that have "interrupt s2" by (simp add: same_input_def s0_def)
    then show ?thesis by (simp add: s1 apply_events_interrupt)
  qed
qed

text \<open>Induction over the iterations of the two loops, for the properties of a run that
  returns: one case for each way an iteration can end.\<close>

lemma decode_data_loop_induct [consumes 1, case_names stop abort fail ok]:
  assumes run: "decode_data_loop e chunk n u i s = Some y"
    and stop: "\<And>i s. interrupt s \<or> \<not> i < n \<Longrightarrow> P i s (Inr s)"
    and abort: "\<And>i s err. \<not> interrupt s \<Longrightarrow> i < n \<Longrightarrow>
       srd_session_send e i (min (i + chunk) n) u s = Inl err \<Longrightarrow> P i s (Inl err)"
    and fail: "\<And>i s s1. \<not> interrupt s \<Longrightarrow> i < n \<Longrightarrow>
       srd_session_send e i (min (i + chunk) n) u s = Inr (False, s1) \<Longrightarrow>
       P i s (Inr (s1\<lparr>error_message := ''Decoder reported an error''\<rparr>))"
    and ok: "\<And>i s s1 y. \<not> interrupt s \<Longrightarrow> i < n \<Longrightarrow>
       srd_session_send e i (min (i + chunk) n) u s = Inr (True, s1) \<Longrightarrow>
       P (i + chunk) (s1\<lparr>samples_decoded := min (i + chunk) n,
                        decoded_log := decoded_log s1 @ [min (i + chunk) n]\<rparr>) y \<Longrightarrow>
       P i s y"
  shows "P i s y"
proof -
  from run have "e = e \<longrightarrow> chunk = chunk \<longrightarrow> n = n \<longrightarrow> u = u \<longrightarrow> P i s y"
  proof (rule decode_data_loop.raw_induct [rotated,
        where P = "\<lambda>e' chunk' n' u' i s y.
          e' = e \<longrightarrow> chunk' = chunk \<longrightarrow> n' = n \<longrightarrow> u' = u \<longrightarrow> P i s y"])
    fix f e' chunk' n' u' i s y
    assume IH: "\<And>e' chunk' n' u' i s y. f e' chunk' n' u' i s = Some y \<Longrightarrow>
        e' = e \<longrightarrow> chunk' = chunk \<longrightarrow> n' = n \<longrightarrow> u' = u \<longrightarrow> P i s y"
      and body: "(if \<not> interrupt s \<and> i < n'
        then case srd_session_send e' i (min (i + chunk') n') u' s of
             Inl err \<Rightarrow> Some (Inl err)
           | Inr (success, s1) \<Rightarrow>
               if \<not> success
               then Some (Inr (s1\<lparr>error_message := ''Decoder reported an error''\<rparr>))
               else f e' chunk' n' u' (i + chunk')
                     (s1\<lparr>samples_decoded := min (i + chunk') n',
                         decoded_log := decoded_log s1 @ [min (i + chunk') n']\<rparr>)
        else Some (Inr s)) = Some y"
    show "e' = e \<longrightarrow> chunk' = chunk \<longrightarrow> n' = n \<longrightarrow> u' = u \<longrightarrow> P i s y"
    proof (intro impI)
      assume eq: "e' = e" "chunk' = chunk" "n' = n" "u' = u"
      show "P i s y"
      proof (cases "\<not> interrupt s \<and> i < n")
        case False
        with body eq have "y = Inr s" by simp
        with False stop [of s i] show ?thesis by simp
      next
        case True
        show ?thesis
        proof (cases "srd_session_send e i (min (i + chunk) n) u s")
          case (Inl err)
          with body eq True have "y = Inl err" by simp
          with True Inl abort [of s i err] show ?thesis by simp
        next
          case (Inr p)
          obtain success s1 where p: "p = (success, s1)" by (cases p)
          show ?thesis
          proof (cases success)
            case False
            with body eq True Inr p
            have "y = Inr (s1\<lparr>error_message := ''Decoder reported an error''\<rparr>)" by simp
            with True Inr p False fail [of s i s1] show ?thesis by simp
          next
            case success: True
            with body eq True Inr p
            have "f e chunk n u (i + chunk)
                    (s1\<lparr>samples_decoded := min (i + chunk) n,
                        decoded_log := decoded_log s1 @ [min (i + chunk) n]\<rparr>) = Some y"
              by simp
            from IH [OF this]
            have "P (i + chunk) (s1\<lparr>samples_decoded := min (i + chunk) n,
                        decoded_log := decoded_log s1 @ [min (i + chunk) n]\<rparr>) y"
              by simp
            with True Inr p success ok [of s i s1 y] show ?thesis by simp
          qed
        qed
      qed
    qed
  qed
  then show ?thesis by simp
qed

lemma decode_proc_loop_induct [consumes 1, case_names aborted failed finished continued]:
  assumes run: "decode_proc_loop e u a n s = Some y"
    and aborted: "\<And>a n s err. decode_data e a n u s = Some (Inl err) \<Longrightarrow> P a n s (Inl err)"
    and failed: "\<And>a n s s1. decode_data e a n u s = Some (Inr s1) \<Longrightarrow>
       error_message s1 \<noteq> [] \<Longrightarrow> P a n s (Inr s1)"
    and finished: "\<And>a n s s1 s2. decode_data e a n u s = Some (Inr s1) \<Longrightarrow>
       error_message s1 = [] \<Longrightarrow>
       wait_for_data (wakes e (n_wait s1)) (s1\<lparr>n_wait := Suc (n_wait s1)\<rparr>) = Some (None, s2) \<Longrightarrow>
       P a n s (Inr s2)"
    and continued: "\<And>a n s s1 s2 n' y. decode_data e a n u s = Some (Inr s1) \<Longrightarrow>
       error_message s1 = [] \<Longrightarrow>
       wait_for_data (wakes e (n_wait s1)) (s1\<lparr>n_wait := Suc (n_wait s1)\<rparr>) =
         Some (Some n', s2) \<Longrightarrow>
       P n n' s2 y \<Longrightarrow> P a n s y"
  shows "P a n s y"
proof -
  from run have "e = e \<longrightarrow> u = u \<longrightarrow> P a n s y"
  proof (rule decode_proc_loop.raw_induct [rotated,
        where P = "\<lambda>e' u' a n s y. e' = e \<longrightarrow> u' = u \<longrightarrow> P a n s y"])
    fix f e' u' a n s y
    assume IH: "\<And>e' u' a n s y. f e' u' a n s = Some y \<Longrightarrow> e' = e \<longrightarrow> u' = u \<longrightarrow> P a n s y"
      and body: "(case decode_data e' a n u' s of
          None \<Rightarrow> None
        | Some (Inl err) \<Rightarrow> Some (Inl err)
        | Some (Inr s1) \<Rightarrow>
            if \<not> (error_message s1 = []) then Some (Inr s1)
            else (case wait_for_data (wakes e' (n_wait s1)) (s1\<lparr>n_wait := Suc (n_wait s1)\<rparr>) of
                    None \<Rightarrow> None
                  | Some (None, s2) \<Rightarrow> Some (Inr s2)
                  | Some (Some n', s2) \<Rightarrow> f e' u' n n' s2)) = Some y"
    show "e' = e \<longrightarrow> u' = u \<longrightarrow> P a n s y"
    proof (intro impI)
      assume eq: "e' = e" "u' = u"
      from body eq obtain r where dd: "decode_data e a n u s = Some r"
        by (cases "decode_data e a n u s") auto
      show "P a n s y"
      proof (cases r)
        case (Inl err)
        with body eq dd have "y = Inl err" by simp
        with dd Inl aborted [of a n s err] show ?thesis by simp
      next
        case (Inr s1)
        show ?thesis
        proof (cases "error_message s1 = []")
          case False
          with body eq dd Inr have "y = Inr s1" by simp
          with dd Inr False failed [of a n s s1] show ?thesis by simp
        next
          case True
          with body eq dd Inr obtain w where
            w: "wait_for_data (wakes e (n_wait s1)) (s1\<lparr>n_wait := Suc (n_wait s1)\<rparr>) = Some w"
            by (cases "wait_for_data (wakes e (n_wait s1)) (s1\<lparr>n_wait := Suc (n_wait s1)\<rparr>)")
              auto
          obtain r' s2 where w': "w = (r', s2)" by (cases w)
          show ?thesis
          proof (cases r')
            case None
            with body eq dd Inr True w w' have "y = Inr s2" by simp
            with dd Inr True w w' None finished [of a n s s1 s2] show ?thesis by simp
          next
            case (Some n')
            with body eq dd Inr True w w' have "f e u n n' s2 = Some y" by simp
            from IH [OF this] have "P n n' s2 y" by simp
            with dd Inr True w w' Some continued [of a n s s1 n' s2 y] show ?thesis by simp
          qed
        qed
      qed
    qed
  qed
  then show ?thesis by simp
qed

text \<open>What a returning loop keeps, how \<open>samples_decoded\<close> moves, and how sends are counted.\<close>

lemma same_setup_refl: "same_setup s s"
  by (simp add: same_setup_def rows_extend_refl trace_extend_refl)

lemma same_setup_trans: "same_setup s s1 \<Longrightarrow> same_setup s1 s2 \<Longrightarrow> same_setup s s2"
  by (auto simp: same_setup_def intro: rows_extend_trans trace_extend_trans)

lemma srd_session_send_setup:
  assumes "srd_session_send e i ce u s = Inr (okv, s1)"
  shows "same_setup s s1"
  using srd_session_send_props [OF assms] by (simp add: same_setup_def)

lemma same_setup_progress_update:
  "same_setup s s1 \<Longrightarrow>
   same_setup s (s1\<lparr>samples_decoded := v, decoded_log := l\<rparr>)"
  "same_setup s s1 \<Longrightarrow> same_setup s (s1\<lparr>error_message := m\<rparr>)"
  by (simp_all add: same_setup_def rows_extend_def trace_extend_def)

lemma same_setup_progress_update_left:
  "same_setup (s1\<lparr>samples_decoded := v, decoded_log := l\<rparr>) s' \<Longrightarrow> same_setup s1 s'"
  by (simp_all add: same_setup_def rows_extend_def trace_extend_def)

lemma decode_data_loop_setup:
  assumes "decode_data_loop e chunk n u i s = Some y"
  shows "\<forall>s'. y = Inr s' \<longrightarrow> same_setup s s'"
  using assms
proof (induction rule: decode_data_loop_induct)
  case (stop i s)
  then show ?case by (simp add: same_setup_refl)
next
  case (abort i s err)
  then show ?case by simp
next
  case (fail i s s1)
  then show ?case
    by (simp add: srd_session_send_setup same_setup_progress_update)
next
  case (ok i s s1 y)
  from srd_session_send_setup [OF ok(3)] have "same_setup s s1" .
  with ok(4) show ?case
    by (auto intro: same_setup_trans dest: same_setup_progress_update_left)
qed

lemma decode_data_loop_progress:
  assumes "decode_data_loop e chunk n u i s = Some y" and "0 \<le> chunk"
  shows "\<forall>s'. y = Inr s' \<longrightarrow> samples_decoded s = min i n \<longrightarrow>
     (\<exists>new. decoded_log s' = decoded_log s @ new \<and> sorted (samples_decoded s # new) \<and>
        samples_decoded s' = last (samples_decoded s # new)) \<and>
     (error_message s' = [] \<and> \<not> interrupt s' \<longrightarrow> samples_decoded s' = n)"
  using assms(1)
proof (induction rule: decode_data_loop_induct)
  case (stop i s)
  then show ?case by auto
next
  case (abort i s err)
  then show ?case by simp
next
  case (fail i s s1)
  note p = srd_session_send_props [OF fail(3)]
  from p show ?case by simp
next
  case (ok i s s1 y)
  note p = srd_session_send_props [OF ok(3)]
  let ?m = "min (i + chunk) n"
  let ?s = "s1\<lparr>samples_decoded := ?m, decoded_log := decoded_log s1 @ [?m]\<rparr>"
  show ?case
  proof (intro allI impI)
    fix s'
    assume y: "y = Inr s'" and sd: "samples_decoded s = min i n"
    from ok(4) y have
      "(\<exists>new. decoded_log s' = decoded_log ?s @ new \<and> sorted (samples_decoded ?s # new) \<and>
        samples_decoded s' = last (samples_decoded ?s # new)) \<and>
     (error_message s' = [] \<and> \<not> interrupt s' \<longrightarrow> samples_decoded s' = n)"
      by simp
    then obtain new where new: "decoded_log s' = decoded_log s1 @ [?m] @ new"
      "sorted (?m # new)" "samples_decoded s' = last (?m # new)"
      and fin: "error_message s' = [] \<and> \<not> interrupt s' \<longrightarrow> samples_decoded s' = n"
      by auto
    from sd assms(2) have le: "samples_decoded s \<le> ?m" by simp
    have "decoded_log s' = decoded_log s @ (?m # new)"
      using new(1) p(5) by simp
    moreover have "sorted (samples_decoded s # ?m # new)"
      using new(2) le by auto
    moreover have "samples_decoded s' = last (samples_decoded s # ?m # new)"
      using new(3) by simp
    ultimately show "(\<exists>new. decoded_log s' = decoded_log s @ new \<and>
        sorted (samples_decoded s # new) \<and>
        samples_decoded s' = last (samples_decoded s # new)) \<and>
     (error_message s' = [] \<and> \<not> interrupt s' \<longrightarrow> samples_decoded s' = n)"
      using fin by blast
  qed
qed

lemma send_accounting_refl: "send_accounting e s s"
  by (auto simp: send_accounting_def sends_ok_def)

lemma decode_data_loop_accounting:
  assumes "decode_data_loop e chunk n u i s = Some y"
  shows "\<forall>s'. y = Inr s' \<longrightarrow> send_accounting e s s'"
  using assms
proof (induction rule: decode_data_loop_induct)
  case (stop i s)
  then show ?case by (simp add: send_accounting_refl)
next
  case (abort i s err)
  then show ?case by simp
next
  case (fail i s s1)
  note p = srd_session_send_props [OF fail(3)]
  have "k = n_send s" if "n_send s \<le> k" "k < Suc (n_send s)" for k
    using that by simp
  with p show ?case
    by (auto simp: send_accounting_def sends_ok_def)
next
  case (ok i s s1 y)
  note p = srd_session_send_props [OF ok(3)]
  let ?m = "min (i + chunk) n"
  let ?s = "s1\<lparr>samples_decoded := ?m, decoded_log := decoded_log s1 @ [?m]\<rparr>"
  show ?case
  proof (intro allI impI)
    fix s'
    assume y: "y = Inr s'"
    with ok(4) have acc: "send_accounting e ?s s'" by simp
    from p(1) have ok0: "ok (send e (n_send s))" by simp
    have ns: "n_send ?s = Suc (n_send s)" using p(2) by simp
    have ln: "length (decoded_log ?s) = Suc (length (decoded_log s))" using p(5) by simp
    have em: "error_message ?s = error_message s" using p(4) by simp
    from acc ns have le: "Suc (n_send s) \<le> n_send s'" by (simp add: send_accounting_def)
    show "send_accounting e s s'"
      unfolding send_accounting_def
    proof (intro conjI allI impI)
      show "n_send s \<le> n_send s'" using le by simp
    next
      fix k
      assume k: "n_send s \<le> k \<and> k < n_send s' \<and> \<not> ok (send e k)"
      with ok0 have "k \<noteq> n_send s" by auto
      with k have k': "n_send ?s \<le> k \<and> k < n_send s' \<and> \<not> ok (send e k)"
        using ns by simp
      with acc have r: "n_send s' = Suc k \<and> error_message s' = ''Decoder reported an error'' \<and>
        length (decoded_log s') = length (decoded_log ?s) + (k - n_send ?s)"
        unfolding send_accounting_def by blast
      from r show "n_send s' = Suc k" by simp
      from r show "error_message s' = ''Decoder reported an error''" by simp
      from r have "length (decoded_log s') = length (decoded_log ?s) + (k - n_send ?s)"
        by simp
      moreover from k' have "n_send ?s \<le> k" by simp
      ultimately show "length (decoded_log s') = length (decoded_log s) + (k - n_send s)"
        unfolding ns ln by arith
    next
      assume a: "sends_ok e s s'"
      then have "sends_ok e ?s s'" using ns by (simp add: sends_ok_def)
      with acc have r: "error_message s' = error_message ?s \<and>
        length (decoded_log s') = length (decoded_log ?s) + (n_send s' - n_send ?s)"
        unfolding send_accounting_def by blast
      from r em show "error_message s' = error_message s" by simp
      from r have "length (decoded_log s') =
          length (decoded_log ?s) + (n_send s' - n_send ?s)" by simp
      with le show "length (decoded_log s') =
          length (decoded_log s) + (n_send s' - n_send s)"
        unfolding ns ln by arith
    qed
  qed
qed

lemma chunk_sample_count_nonneg: "0 \<le> chunk_sample_count u"
  by (simp add: chunk_sample_count_def)

lemma decode_data_Inr:
  assumes "decode_data e a n u s = Some (Inr s')"
  shows "\<exists>seg. segment s = Some seg \<and> seg_unit_size seg \<noteq> 0 \<and>
    decode_data_loop e (chunk_sample_count (seg_unit_size seg)) n u a s = Some (Inr s')"
  using assms by (auto simp: decode_data_def split: option.splits if_splits)

lemma decode_data_setup:
  "decode_data e a n u s = Some (Inr s') \<Longrightarrow> same_setup s s'"
  using decode_data_Inr [of e a n u s s'] decode_data_loop_setup by blast

lemma decode_data_accounting:
  "decode_data e a n u s = Some (Inr s') \<Longrightarrow> send_accounting e s s'"
  using decode_data_Inr [of e a n u s s'] decode_data_loop_accounting by blast

lemma decode_data_progress:
  assumes "decode_data e a n u s = Some (Inr s')" and "samples_decoded s = a" and "a \<le> n"
  shows "\<exists>new. decoded_log s' = decoded_log s @ new \<and> sorted (samples_decoded s # new) \<and>
        samples_decoded s' = last (samples_decoded s # new)"
    and "error_message s' = [] \<Longrightarrow> \<not> interrupt s' \<Longrightarrow> samples_decoded s' = n"
proof -
  from decode_data_Inr [OF assms(1)] obtain seg :: segment where
    l: "decode_data_loop e (chunk_sample_count (seg_unit_size seg)) n u a s = Some (Inr s')"
    by auto
  from assms(2,3) have m: "samples_decoded s = min a n" by simp
  note r = decode_data_loop_progress [OF l chunk_sample_count_nonneg, rule_format, OF refl m]
  from r show "\<exists>new. decoded_log s' = decoded_log s @ new \<and>
        sorted (samples_decoded s # new) \<and> samples_decoded s' = last (samples_decoded s # new)"
    by blast
  from r show "samples_decoded s' = n" if "error_message s' = []" "\<not> interrupt s'"
    using that by blast
qed

lemma wait_loop_frame:
  "wait_loop bs s = Some s' \<Longrightarrow>
     same_progress s s' \<and> same_output s s' \<and> (interrupt s \<longrightarrow> interrupt s') \<and> \<not> must_wait s'"
proof (induction bs arbitrary: s)
  case Nil
  then show ?case
    by (auto simp: same_progress_refl same_output_refl split: if_splits)
next
  case (Cons b bs)
  show ?case
  proof (cases "must_wait s")
    case False
    with Cons.prems show ?thesis
      by (auto simp: same_progress_refl same_output_refl)
  next
    case True
    with Cons.prems have "wait_loop bs (apply_events b s) = Some s'" by simp
    from Cons.IH [OF this] apply_events_frame [of s b] apply_events_interrupt [of s b]
    show ?thesis
      by (auto intro: same_progress_trans same_output_trans)
  qed
qed

lemma wait_for_data_frame:
  assumes "wait_for_data bs s = Some (r, s')"
  shows "same_progress s s'" and "same_output s s'" and "interrupt s \<Longrightarrow> interrupt s'"
    and "\<not> must_wait s'" and "r = wait_result s'"
  using assms wait_loop_frame [of bs s s']
  by (auto simp: wait_for_data_def split: option.splits)

lemma wait_for_data_engaged:
  assumes "wait_for_data bs s = Some (Some n', s')"
  shows "\<not> interrupt s'" and "samples_decoded s' < n'" and "n' = sample_count s'"
  using wait_for_data_frame(4,5) [OF assms]
  by (auto simp: wait_result_def make_optional_def must_wait_def split: if_splits)

lemma sorted_append_last:
  fixes x :: int
  assumes "sorted (x # xs)" and "sorted (last (x # xs) # ys)"
  shows "sorted (x # xs @ ys)" and "last (x # xs @ ys) = last (last (x # xs) # ys)"
proof -
  have le: "\<forall>a \<in> set (x # xs). a \<le> last (x # xs)"
    using assms(1)
  proof (induction xs arbitrary: x)
    case Nil
    then show ?case by simp
  next
    case (Cons b bs)
    then have "\<forall>a \<in> set (b # bs). a \<le> last (b # bs)" by simp
    moreover from Cons.prems have "x \<le> b" by simp
    ultimately show ?case by fastforce
  qed
  have "\<forall>a \<in> set (x # xs). \<forall>b \<in> set ys. a \<le> b"
  proof (intro ballI)
    fix a b assume "a \<in> set (x # xs)" "b \<in> set ys"
    with le assms(2) have "a \<le> last (x # xs)" "last (x # xs) \<le> b" by auto
    then show "a \<le> b" by simp
  qed
  with assms have "sorted ((x # xs) @ ys)"
    unfolding sorted_append by simp
  then show "sorted (x # xs @ ys)" by simp
  show "last (x # xs @ ys) = last (last (x # xs) # ys)"
    by (cases ys) simp_all
qed

lemma wait_for_data_setup:
  assumes "wait_for_data bs (s1\<lparr>n_wait := Suc (n_wait s1)\<rparr>) = Some (r, s2)"
  shows "same_setup s1 s2" and "samples_decoded s2 = samples_decoded s1"
    and "error_message s2 = error_message s1" and "decoded_log s2 = decoded_log s1"
    and "n_send s2 = n_send s1" and "rows s2 = rows s1"
    and "annotation_count s2 = annotation_count s1" and "trace s2 = trace s1"
proof -
  note f = wait_for_data_frame [OF assms]
  from f show "same_setup s1 s2"
    by (auto simp: same_setup_def same_progress_def same_output_def rows_extend_def
        trace_extend_def option.rel_refl)
  from f show "samples_decoded s2 = samples_decoded s1" "error_message s2 = error_message s1"
    "decoded_log s2 = decoded_log s1" "n_send s2 = n_send s1" "rows s2 = rows s1"
    "annotation_count s2 = annotation_count s1" "trace s2 = trace s1"
    by (simp_all add: same_progress_def same_output_def)
qed

lemma decode_proc_loop_setup:
  assumes "decode_proc_loop e u a n s = Some y"
  shows "\<forall>s'. y = Inr s' \<longrightarrow> same_setup s s'"
  using assms
proof (induction rule: decode_proc_loop_induct)
  case (aborted a n s err)
  then show ?case by simp
next
  case (failed a n s s1)
  then show ?case by (simp add: decode_data_setup)
next
  case (finished a n s s1 s2)
  from decode_data_setup [OF finished(1)] wait_for_data_setup(1) [OF finished(3)]
  show ?case by (auto intro: same_setup_trans)
next
  case (continued a n s s1 s2 n' y)
  from decode_data_setup [OF continued(1)] wait_for_data_setup(1) [OF continued(3)]
  have "same_setup s s2" by (auto intro: same_setup_trans)
  with continued(4) show ?case by (auto intro: same_setup_trans)
qed

lemma decode_proc_loop_progress:
  assumes "decode_proc_loop e u a n s = Some y"
  shows "\<forall>s'. y = Inr s' \<longrightarrow> samples_decoded s = a \<longrightarrow> a \<le> n \<longrightarrow>
     (\<exists>new. decoded_log s' = decoded_log s @ new \<and> sorted (samples_decoded s # new) \<and>
        samples_decoded s' = last (samples_decoded s # new))"
  using assms
proof (induction rule: decode_proc_loop_induct)
  case (aborted a n s err)
  then show ?case by simp
next
  case (failed a n s s1)
  then show ?case using decode_data_progress(1) by blast
next
  case (finished a n s s1 s2)
  note w = wait_for_data_setup [OF finished(3)]
  show ?case
  proof (intro allI impI)
    fix s' assume "Inr s2 = Inr s'" and a: "samples_decoded s = a" "a \<le> n"
    then have "s' = s2" by simp
    with decode_data_progress(1) [OF finished(1) a] w
    show "\<exists>new. decoded_log s' = decoded_log s @ new \<and> sorted (samples_decoded s # new) \<and>
        samples_decoded s' = last (samples_decoded s # new)" by simp
  qed
next
  case (continued a n s s1 s2 n' y)
  note w = wait_for_data_setup [OF continued(3)]
  note g = wait_for_data_engaged [OF continued(3)]
  show ?case
  proof (intro allI impI)
    fix s' assume y: "y = Inr s'" and a: "samples_decoded s = a" "a \<le> n"
    from decode_data_progress(1) [OF continued(1) a] obtain new1 where
      new1: "decoded_log s1 = decoded_log s @ new1" "sorted (samples_decoded s # new1)"
      "samples_decoded s1 = last (samples_decoded s # new1)" by blast
    from g(1) w(1) have "\<not> interrupt s1" by (auto simp: same_setup_def)
    from decode_data_progress(2) [OF continued(1) a continued(2) this]
    have s1n: "samples_decoded s1 = n" .
    with w(2) g(2) have "samples_decoded s2 = n" "n \<le> n'" by simp_all
    with continued(4) y obtain new2 where
      new2: "decoded_log s' = decoded_log s2 @ new2" "sorted (samples_decoded s2 # new2)"
      "samples_decoded s' = last (samples_decoded s2 # new2)" by blast
    from new1(3) w(2) have eq: "samples_decoded s2 = last (samples_decoded s # new1)" by simp
    from new2(2) eq have so: "sorted (last (samples_decoded s # new1) # new2)" by simp
    note m = sorted_append_last [OF new1(2) so]
    have "decoded_log s' = decoded_log s @ (new1 @ new2)"
      using new1(1) new2(1) w(4) by simp
    moreover have "sorted (samples_decoded s # (new1 @ new2))" using m(1) .
    moreover have "samples_decoded s' = last (samples_decoded s # (new1 @ new2))"
      using m(2) new2(3) eq by simp
    ultimately show "\<exists>new. decoded_log s' = decoded_log s @ new \<and>
        sorted (samples_decoded s # new) \<and> samples_decoded s' = last (samples_decoded s # new)"
      by blast
  qed
qed

lemma send_accounting_no_error:
  "send_accounting e s s1 \<Longrightarrow> error_message s1 = [] \<Longrightarrow> sends_ok e s s1"
  by (auto simp: send_accounting_def sends_ok_def)

lemma send_accounting_cong:
  "send_accounting e s s1 \<Longrightarrow> n_send s2 = n_send s1 \<Longrightarrow> error_message s2 = error_message s1 \<Longrightarrow>
   decoded_log s2 = decoded_log s1 \<Longrightarrow> send_accounting e s s2"
  by (simp add: send_accounting_def sends_ok_def)

lemma send_accounting_trans:
  assumes a: "send_accounting e s s1" and okk: "sends_ok e s s1" and b: "send_accounting e s1 s2"
  shows "send_accounting e s s2"
proof -
  from a okk have 1: "n_send s \<le> n_send s1" "error_message s1 = error_message s"
    "length (decoded_log s1) = length (decoded_log s) + (n_send s1 - n_send s)"
    by (simp_all add: send_accounting_def)
  from b have 2: "n_send s1 \<le> n_send s2" by (simp add: send_accounting_def)
  show ?thesis
    unfolding send_accounting_def
  proof (intro conjI allI impI)
    show "n_send s \<le> n_send s2" using 1(1) 2 by simp
  next
    fix k assume k: "n_send s \<le> k \<and> k < n_send s2 \<and> \<not> ok (send e k)"
    with okk have "n_send s1 \<le> k" by (auto simp: sends_ok_def not_less [symmetric])
    with k b have r: "n_send s2 = Suc k" "error_message s2 = ''Decoder reported an error''"
      "length (decoded_log s2) = length (decoded_log s1) + (k - n_send s1)"
      unfolding send_accounting_def by blast+
    from r show "n_send s2 = Suc k" "error_message s2 = ''Decoder reported an error''"
      by simp_all
    from r(3) 1(1,3) \<open>n_send s1 \<le> k\<close>
    show "length (decoded_log s2) = length (decoded_log s) + (k - n_send s)" by arith
  next
    assume "sends_ok e s s2"
    with 1(1) 2 have "sends_ok e s1 s2" by (auto simp: sends_ok_def)
    with b have r: "error_message s2 = error_message s1"
      "length (decoded_log s2) = length (decoded_log s1) + (n_send s2 - n_send s1)"
      by (simp_all add: send_accounting_def)
    from r(1) 1(2) show "error_message s2 = error_message s" by simp
    from r(2) 1(1,3) 2
    show "length (decoded_log s2) = length (decoded_log s) + (n_send s2 - n_send s)" by arith
  qed
qed

lemma decode_proc_loop_accounting:
  assumes "decode_proc_loop e u a n s = Some y"
  shows "\<forall>s'. y = Inr s' \<longrightarrow> send_accounting e s s'"
  using assms
proof (induction rule: decode_proc_loop_induct)
  case (aborted a n s err)
  then show ?case by simp
next
  case (failed a n s s1)
  then show ?case by (simp add: decode_data_accounting)
next
  case (finished a n s s1 s2)
  note w = wait_for_data_setup [OF finished(3)]
  from send_accounting_cong [OF decode_data_accounting [OF finished(1)] w(5,3,4)]
  show ?case by simp
next
  case (continued a n s s1 s2 n' y)
  note w = wait_for_data_setup [OF continued(3)]
  note d = decode_data_accounting [OF continued(1)]
  from send_accounting_cong [OF d w(5,3,4)] have 1: "send_accounting e s s2" .
  from w(3) continued(2) have "error_message s2 = []" by simp
  from send_accounting_no_error [OF 1 this] have 2: "sends_ok e s s2" .
  from continued(4) 1 2 show ?case
    by (auto intro: send_accounting_trans)
qed

text \<open>The thread as a whole: its setup, and what follows from the loop properties.\<close>

lemma create_decoders_eq:
  "create_decoders ds p s =
     (if \<forall>dec \<in> set ds. create_decoder_inst_ok dec
      then (True, s\<lparr>trace := trace s @ inst_effects ds p\<rparr>)
      else (False, s\<lparr>error_message := ''Failed to create decoder instance'',
                     trace := trace s @ inst_effects ds p @ [SrdSessionDestroy]\<rparr>))"
  by (induction ds arbitrary: p s) (simp_all add: Let_def)

lemma inst_effects_no_destroy: "SrdSessionDestroy \<notin> set (inst_effects ds p)"
  by (induction ds arbitrary: p) auto

lemma decode_proc_created:
  assumes "decode_proc e s = Some (Inr s')" and "all_created s"
  shows "\<exists>seg s4 s5. segment s = Some seg \<and>
     s4 = s\<lparr>sample_count := int (seg_sample_count seg),
            trace := trace s @ [SrdSessionNew] @ inst_effects (stack s) False @
                [SrdSessionMetadataSet, SrdPdOutputCallbackAdd, SrdSessionStart]\<rparr> \<and>
     decode_proc_loop e (seg_unit_size seg) 0 (int (seg_sample_count seg)) s4 = Some (Inr s5) \<and>
     s' = s5\<lparr>trace := trace s5 @ [NewAnnotations, SrdSessionDestroy]\<rparr>"
  using assms
  by (auto simp: decode_proc_def all_created_def create_decoders_eq Let_def
      split: option.splits sum.splits)

lemma decode_proc_not_created:
  assumes "decode_proc e s = Some (Inr s')" and "\<not> all_created s"
  shows "s' = s\<lparr>error_message := ''Failed to create decoder instance'',
                trace := trace s @ [SrdSessionNew] @ inst_effects (stack s) False @
                  [SrdSessionDestroy]\<rparr>"
proof -
  let ?s1 = "s\<lparr>trace := trace s @ [SrdSessionNew]\<rparr>"
  from assms(2) have n: "\<not> (\<forall>dec \<in> set (stack ?s1). create_decoder_inst_ok dec)"
    by (simp add: all_created_def)
  have "create_decoders (stack ?s1) False ?s1 =
      (False, ?s1\<lparr>error_message := ''Failed to create decoder instance'',
                   trace := trace ?s1 @ inst_effects (stack ?s1) False @ [SrdSessionDestroy]\<rparr>)"
    unfolding create_decoders_eq using n by (simp only: if_False)
  with assms(1) show ?thesis
    by (simp add: decode_proc_def Let_def split: option.splits)
qed

lemma decode_proc_progress:
  assumes "decode_proc e s = Some (Inr s')" and "samples_decoded s = 0"
  shows "\<exists>new. decoded_log s' = decoded_log s @ new \<and> sorted (samples_decoded s # new) \<and>
           samples_decoded s' = last (samples_decoded s # new)"
proof (cases "all_created s")
  case False
  from decode_proc_not_created [OF assms(1) False] show ?thesis by simp
next
  case True
  from decode_proc_created [OF assms(1) True] obtain seg :: segment and s4 s5 where
    s4: "s4 = s\<lparr>sample_count := int (seg_sample_count seg),
            trace := trace s @ [SrdSessionNew] @ inst_effects (stack s) False @
                [SrdSessionMetadataSet, SrdPdOutputCallbackAdd, SrdSessionStart]\<rparr>"
    and l: "decode_proc_loop e (seg_unit_size seg) 0 (int (seg_sample_count seg)) s4 =
      Some (Inr s5)"
    and s': "s' = s5\<lparr>trace := trace s5 @ [NewAnnotations, SrdSessionDestroy]\<rparr>"
    by blast
  from s4 assms(2) have "samples_decoded s4 = 0" by simp
  with decode_proc_loop_progress [OF l] have
    "\<exists>new. decoded_log s5 = decoded_log s4 @ new \<and> sorted (samples_decoded s4 # new) \<and>
        samples_decoded s5 = last (samples_decoded s4 # new)" by simp
  then show ?thesis by (simp add: s' s4)
qed

lemma decode_proc_accounting:
  assumes "decode_proc e s = Some (Inr s')"
    and "n_send s \<le> k" and "k < n_send s'" and "\<not> ok (send e k)"
  shows "n_send s' = Suc k" and "error_message s' = ''Decoder reported an error''"
    and "length (decoded_log s') = length (decoded_log s) + (k - n_send s)"
proof -
  have c: "all_created s"
  proof (rule ccontr)
    assume "\<not> all_created s"
    from decode_proc_not_created [OF assms(1) this] assms(2,3) show False by simp
  qed
  from decode_proc_created [OF assms(1) c] obtain seg :: segment and s4 s5 where
    s4: "s4 = s\<lparr>sample_count := int (seg_sample_count seg),
            trace := trace s @ [SrdSessionNew] @ inst_effects (stack s) False @
                [SrdSessionMetadataSet, SrdPdOutputCallbackAdd, SrdSessionStart]\<rparr>"
    and l: "decode_proc_loop e (seg_unit_size seg) 0 (int (seg_sample_count seg)) s4 =
      Some (Inr s5)"
    and s': "s' = s5\<lparr>trace := trace s5 @ [NewAnnotations, SrdSessionDestroy]\<rparr>"
    by blast
  from decode_proc_loop_accounting [OF l] have acc: "send_accounting e s4 s5" by simp
  from assms(2-4) have "n_send s4 \<le> k \<and> k < n_send s5 \<and> \<not> ok (send e k)"
    by (simp add: s4 s')
  with acc have r: "n_send s5 = Suc k \<and> error_message s5 = ''Decoder reported an error'' \<and>
        length (decoded_log s5) = length (decoded_log s4) + (k - n_send s4)"
    unfolding send_accounting_def by blast
  from r show "n_send s' = Suc k" by (simp add: s')
  from r show "error_message s' = ''Decoder reported an error''" by (simp add: s')
  from r show "length (decoded_log s') = length (decoded_log s) + (k - n_send s)"
    by (simp add: s' s4)
qed

lemma decode_proc_rows:
  assumes "decode_proc e s = Some (Inr s')"
  shows "rows_extend s s'"
proof (cases "all_created s")
  case False
  from decode_proc_not_created [OF assms(1) False] show ?thesis
    by (simp add: rows_extend_def option.rel_refl)
next
  case True
  from decode_proc_created [OF assms(1) True] obtain seg :: segment and s4 s5 where
    s4: "s4 = s\<lparr>sample_count := int (seg_sample_count seg),
            trace := trace s @ [SrdSessionNew] @ inst_effects (stack s) False @
                [SrdSessionMetadataSet, SrdPdOutputCallbackAdd, SrdSessionStart]\<rparr>"
    and l: "decode_proc_loop e (seg_unit_size seg) 0 (int (seg_sample_count seg)) s4 =
      Some (Inr s5)"
    and s': "s' = s5\<lparr>trace := trace s5 @ [NewAnnotations, SrdSessionDestroy]\<rparr>"
    by blast
  from decode_proc_loop_setup [OF l] have "rows_extend s4 s5" by (simp add: same_setup_def)
  then show ?thesis by (simp add: s' s4 rows_extend_def)
qed

lemma decode_data_loop_fail:
  assumes "\<not> interrupt s" and "i < n"
    and "srd_session_send e i (min (i + chunk) n) u s = Inr (False, s1)"
  shows "decode_data_loop e chunk n u i s =
     Some (Inr (s1\<lparr>error_message := ''Decoder reported an error''\<rparr>))"
  using assms by (subst decode_data_loop.simps) simp

lemma decode_proc_loop_fail:
  assumes "decode_data e a n u s = Some (Inr s1)" and "error_message s1 \<noteq> []"
  shows "decode_proc_loop e u a n s = Some (Inr s1)"
  using assms by (subst decode_proc_loop.simps) simp

lemma decode_proc_final_notification:
  assumes "decode_proc e s = Some (Inr s')" and "all_created s"
  shows "\<exists>mid. trace s' = trace s @ mid @ [NewAnnotations, SrdSessionDestroy] \<and>
           SrdSessionDestroy \<notin> set mid"
proof -
  from decode_proc_created [OF assms] obtain seg :: segment and s4 s5 where
    s4: "s4 = s\<lparr>sample_count := int (seg_sample_count seg),
            trace := trace s @ [SrdSessionNew] @ inst_effects (stack s) False @
                [SrdSessionMetadataSet, SrdPdOutputCallbackAdd, SrdSessionStart]\<rparr>"
    and l: "decode_proc_loop e (seg_unit_size seg) 0 (int (seg_sample_count seg)) s4 =
      Some (Inr s5)"
    and s': "s' = s5\<lparr>trace := trace s5 @ [NewAnnotations, SrdSessionDestroy]\<rparr>"
    by blast
  from decode_proc_loop_setup [OF l] obtain t where
    t: "trace s5 = trace s4 @ t" "SrdSessionDestroy \<notin> set t"
    by (auto simp: same_setup_def trace_extend_def)
  let ?mid = "[SrdSessionNew] @ inst_effects (stack s) False @
                [SrdSessionMetadataSet, SrdPdOutputCallbackAdd, SrdSessionStart] @ t"
  have "trace s' = trace s @ ?mid @ [NewAnnotations, SrdSessionDestroy]"
    by (simp add: s' t s4)
  moreover have "SrdSessionDestroy \<notin> set ?mid"
    using t(2) inst_effects_no_destroy by simp
  ultimately show ?thesis by blast
qed

text \<open>Termination of the chunk loop: with positive chunks, successful sends and no interrupt
  it returns after the expected number of sends.\<close>

lemma send_ranges_append: "send_ranges (a @ b) = send_ranges a @ send_ranges b"
  by (induction a rule: send_ranges.induct) simp_all

lemma annotation_callback_send_ranges:
  "annotation_callback b pdata s = Inr s' \<Longrightarrow> send_ranges (trace s') = send_ranges (trace s)"
  by (auto simp: annotation_callback_def inc_annotation_count_def Let_def send_ranges_append
      split: option.splits if_splits prod.splits)

lemma callbacks_send_ranges:
  "callbacks b ps s = Inr s' \<Longrightarrow> send_ranges (trace s') = send_ranges (trace s)"
proof (induction ps arbitrary: s)
  case Nil
  then show ?case by simp
next
  case (Cons pdata ps)
  from Cons.prems obtain s1 where
    1: "annotation_callback b pdata s = Inr s1" and 2: "callbacks b ps s1 = Inr s'"
    by (auto split: sum.splits)
  from annotation_callback_send_ranges [OF 1] Cons.IH [OF 2] show ?case by simp
qed

lemma apply_event_no_interrupt:
  "ev \<noteq> InterruptRequested \<Longrightarrow> interrupt (apply_event ev s) = interrupt s"
  by (cases ev) (simp_all add: on_data_received_def on_frame_ended_def split: option.splits)

lemma apply_events_no_interrupt:
  "InterruptRequested \<notin> set es \<Longrightarrow> interrupt (apply_events es s) = interrupt s"
  unfolding apply_events_def
proof (induction es arbitrary: s)
  case Nil
  show ?case by simp
next
  case (Cons ev es)
  from Cons.prems have 1: "ev \<noteq> InterruptRequested" and 2: "InterruptRequested \<notin> set es"
    by auto
  have "interrupt (fold apply_event (ev # es) s) = interrupt (fold apply_event es (apply_event ev s))"
    by simp
  also have "\<dots> = interrupt (apply_event ev s)" by (rule Cons.IH [OF 2])
  also have "\<dots> = interrupt s" by (rule apply_event_no_interrupt [OF 1])
  finally show ?case .
qed

lemma srd_session_send_NDebug:
  assumes "build e = NDebug"
  shows "\<exists>s1. srd_session_send e i ce u s = Inr (ok (send e (n_send s)), s1) \<and>
     send_ranges (trace s1) = send_ranges (trace s) @ [(i, ce)] \<and>
     (InterruptRequested \<notin> set (during (send e (n_send s))) \<longrightarrow> interrupt s1 = interrupt s)"
proof -
  let ?s0 = "s\<lparr>trace := trace s @
      [SrdSessionSend i ce ((ce - i) * int u) u], n_send := Suc (n_send s)\<rparr>"
  let ?r = "send e (n_send s)"
  from callbacks_NDebug obtain s2 where cb: "callbacks NDebug (anns ?r) ?s0 = Inr s2"
    by blast
  let ?s1 = "apply_events (during ?r) s2"
  from cb assms have "srd_session_send e i ce u s = Inr (ok ?r, ?s1)"
    by (simp add: srd_session_send_def Let_def)
  moreover have "send_ranges (trace ?s1) = send_ranges (trace s) @ [(i, ce)]"
    using callbacks_send_ranges [OF cb] apply_events_frame [of s2 "during ?r"]
    by (simp add: same_output_def send_ranges_append)
  moreover have "interrupt ?s1 = interrupt s" if "InterruptRequested \<notin> set (during ?r)"
    using callbacks_frame [OF cb] apply_events_no_interrupt [OF that, of s2]
    by (simp add: same_input_def)
  ultimately show ?thesis by blast
qed

lemma div_le_0_less: "0 < (c::int) \<Longrightarrow> x div c \<le> 0 \<Longrightarrow> x < c"
  using pos_imp_zdiv_pos_iff [of c x] by linarith

lemma div_ge_1_le: "0 < (c::int) \<Longrightarrow> 1 \<le> x div c \<Longrightarrow> c \<le> x"
  using pos_imp_zdiv_pos_iff [of c x] by linarith

lemma div_diff_self: "0 < (c::int) \<Longrightarrow> (x - c) div c = x div c - 1"
  using div_add_self2 [of c "x - c"] by simp

lemma decode_data_loop_total:
  assumes b: "build e = NDebug" and c: "0 < chunk"
  shows "\<not> interrupt s \<Longrightarrow>
     (\<forall>j<K. ok (send e (n_send s + j)) \<and>
        InterruptRequested \<notin> set (during (send e (n_send s + j)))) \<Longrightarrow>
     K = nat ((n - i + chunk - 1) div chunk) \<Longrightarrow>
     \<exists>s'. decode_data_loop e chunk n u i s = Some (Inr s') \<and>
       n_send s' = n_send s + K \<and>
       send_ranges (trace s') = send_ranges (trace s) @
         map (\<lambda>j. (i + int j * chunk, min (i + (int j + 1) * chunk) n)) [0..<K] \<and>
       decoded_log s' = decoded_log s @
         map (\<lambda>j. min (i + (int j + 1) * chunk) n) [0..<K] \<and>
       samples_decoded s' = (if i < n then n else samples_decoded s) \<and>
       error_message s' = error_message s \<and> \<not> interrupt s'"
proof (induction K arbitrary: i s)
  case 0
  from 0(3) c have "(n - i + chunk - 1) div chunk \<le> 0" by simp
  with c have "n - i + chunk - 1 < chunk" by (rule div_le_0_less)
  then have "\<not> i < n" by simp
  then have "decode_data_loop e chunk n u i s = Some (Inr s)"
    by (subst decode_data_loop.simps) simp
  with 0(1) \<open>\<not> i < n\<close> show ?case by simp
next
  case (Suc K)
  from Suc.prems(3) have "1 \<le> (n - i + chunk - 1) div chunk" by linarith
  with c have "chunk \<le> n - i + chunk - 1" by (rule div_ge_1_le)
  then have lt: "i < n" by simp
  let ?m = "min (i + chunk) n"
  from Suc.prems(2) have ok0: "ok (send e (n_send s))"
    "InterruptRequested \<notin> set (during (send e (n_send s)))"
    by (auto dest: spec [of _ 0])
  from srd_session_send_NDebug [OF b, of i ?m u s] ok0 obtain s1 where
    snd: "srd_session_send e i ?m u s = Inr (True, s1)"
    and rg: "send_ranges (trace s1) = send_ranges (trace s) @ [(i, ?m)]"
    and ni: "interrupt s1 = interrupt s"
    by auto
  note p = srd_session_send_props [OF snd]
  let ?s = "s1\<lparr>samples_decoded := ?m, decoded_log := decoded_log s1 @ [?m]\<rparr>"
  have unf: "decode_data_loop e chunk n u i s = decode_data_loop e chunk n u (i + chunk) ?s"
    using Suc.prems(1) lt snd by (subst decode_data_loop.simps) simp
  have 1: "\<not> interrupt ?s" using ni Suc.prems(1) by simp
  have 2: "\<forall>j<K. ok (send e (n_send ?s + j)) \<and>
        InterruptRequested \<notin> set (during (send e (n_send ?s + j)))"
  proof (intro allI impI)
    fix j assume "j < K"
    then have "Suc j < Suc K" by simp
    with Suc.prems(2) have "ok (send e (n_send s + Suc j)) \<and>
        InterruptRequested \<notin> set (during (send e (n_send s + Suc j)))" by blast
    then show "ok (send e (n_send ?s + j)) \<and>
        InterruptRequested \<notin> set (during (send e (n_send ?s + j)))"
      using p(2) by simp
  qed
  have 3: "K = nat ((n - (i + chunk) + chunk - 1) div chunk)"
  proof -
    have "(n - (i + chunk) + chunk - 1) div chunk = (n - i + chunk - 1 - chunk) div chunk"
      by (simp add: algebra_simps)
    also have "\<dots> = (n - i + chunk - 1) div chunk - 1"
      using c by (rule div_diff_self)
    finally show ?thesis using Suc.prems(3) by linarith
  qed
  from Suc.IH [OF 1 2 3] obtain s' where
    r0: "decode_data_loop e chunk n u (i + chunk) ?s = Some (Inr s') \<and>
      n_send s' = n_send ?s + K \<and>
      send_ranges (trace s') = send_ranges (trace ?s) @
         map (\<lambda>j. (i + chunk + int j * chunk, min (i + chunk + (int j + 1) * chunk) n)) [0..<K] \<and>
      decoded_log s' = decoded_log ?s @
         map (\<lambda>j. min (i + chunk + (int j + 1) * chunk) n) [0..<K] \<and>
      samples_decoded s' = (if i + chunk < n then n else samples_decoded ?s) \<and>
      error_message s' = error_message ?s \<and> \<not> interrupt s'" ..
  note r = r0 [THEN conjunct1] r0 [THEN conjunct2, THEN conjunct1]
    r0 [THEN conjunct2, THEN conjunct2, THEN conjunct1]
    r0 [THEN conjunct2, THEN conjunct2, THEN conjunct2, THEN conjunct1]
    r0 [THEN conjunct2, THEN conjunct2, THEN conjunct2, THEN conjunct2, THEN conjunct1]
    r0 [THEN conjunct2, THEN conjunct2, THEN conjunct2, THEN conjunct2, THEN conjunct2,
      THEN conjunct1]
    r0 [THEN conjunct2, THEN conjunct2, THEN conjunct2, THEN conjunct2, THEN conjunct2,
      THEN conjunct2]
  have m1: "map (\<lambda>j. (i + int j * chunk, min (i + (int j + 1) * chunk) n)) [0..<Suc K] =
      (i, ?m) # map (\<lambda>j. (i + chunk + int j * chunk, min (i + chunk + (int j + 1) * chunk) n))
        [0..<K]"
    by (simp add: map_upt_Suc algebra_simps del: upt_Suc)
  have m2: "map (\<lambda>j. min (i + (int j + 1) * chunk) n) [0..<Suc K] =
      ?m # map (\<lambda>j. min (i + chunk + (int j + 1) * chunk) n) [0..<K]"
    by (simp add: map_upt_Suc algebra_simps del: upt_Suc)
  have f1: "decode_data_loop e chunk n u i s = Some (Inr s')" using unf r(1) by simp
  have f2: "n_send s' = n_send s + Suc K" using r(2) p(2) by simp
  have f3: "send_ranges (trace s') = send_ranges (trace s) @
      map (\<lambda>j. (i + int j * chunk, min (i + (int j + 1) * chunk) n)) [0..<Suc K]"
    unfolding m1 using r(3) rg by simp
  have f4: "decoded_log s' = decoded_log s @
      map (\<lambda>j. min (i + (int j + 1) * chunk) n) [0..<Suc K]"
    unfolding m2 using r(4) p(5) by simp
  have f5: "samples_decoded s' = (if i < n then n else samples_decoded s)"
    using r(5) lt by auto
  have f6: "error_message s' = error_message s" using r(6) p(4) by simp
  show ?case
    by (rule exI [of _ s'], intro conjI) (fact f1 f2 f3 f4 f5 f6 r(7))+
qed

text \<open>The definitions to unfold when a run of the example is evaluated.\<close>

lemmas ex_defs = ex_stack_def ex_decoder_def ex_uart_def ex_midi_def ex_segment_def
  ex_pdata_def ex_env_def ex_env_fail_def

lemmas model_defs = begin_decode_def clear_def join_decode_thread_def add_classes_def
  add_decoder_classes_def add_ann_row_def decode_proc_def decode_data_def
  chunk_sample_count_def DecodeChunkLength_def DecodeNotifyPeriod_def srd_session_send_def
  annotation_callback_def find_row_def Annotation_def push_annotation_def
  inc_annotation_count_def apply_events_def on_data_received_def on_frame_ended_def
  wait_for_data_def wait_result_def make_optional_def must_wait_def

lemma wait_loop_now: "\<not> must_wait s \<Longrightarrow> wait_loop bs s = Some s"
  by (cases bs) auto

lemma decode_proc_loop_finished:
  assumes "decode_data e a n u s = Some (Inr s1)" and "error_message s1 = []"
    and "wait_for_data (wakes e (n_wait s1)) (s1\<lparr>n_wait := Suc (n_wait s1)\<rparr>) = Some (None, s2)"
  shows "decode_proc_loop e u a n s = Some (Inr s2)"
  using assms by (subst decode_proc_loop.simps) simp

text \<open>\<open>begin_decode\<close>: the fields after the reset.\<close>

lemma add_ann_row_frame:
  "rows_empty s \<Longrightarrow> rows_empty (add_ann_row decc ann_row s)"
  "stack (add_ann_row decc ann_row s) = stack s"
  "samples_decoded (add_ann_row decc ann_row s) = samples_decoded s"
  "annotation_count (add_ann_row decc ann_row s) = annotation_count s"
  "sample_count (add_ann_row decc ann_row s) = sample_count s"
  "frame_complete (add_ann_row decc ann_row s) = frame_complete s"
  "error_message (add_ann_row decc ann_row s) = error_message s"
  by (simp_all add: add_ann_row_def rows_empty_def Let_def)

lemma fold_add_ann_row_frame:
  "rows_empty s \<Longrightarrow> rows_empty (fold (add_ann_row decc) rs s)"
  "stack (fold (add_ann_row decc) rs s) = stack s"
  "samples_decoded (fold (add_ann_row decc) rs s) = samples_decoded s"
  "annotation_count (fold (add_ann_row decc) rs s) = annotation_count s"
  "sample_count (fold (add_ann_row decc) rs s) = sample_count s"
  "frame_complete (fold (add_ann_row decc) rs s) = frame_complete s"
  "error_message (fold (add_ann_row decc) rs s) = error_message s"
  by (induction rs arbitrary: s) (simp_all add: add_ann_row_frame)

lemma add_decoder_classes_frame:
  "rows_empty s \<Longrightarrow> rows_empty (add_decoder_classes dec s)"
  "stack (add_decoder_classes dec s) = stack s"
  "samples_decoded (add_decoder_classes dec s) = samples_decoded s"
  "annotation_count (add_decoder_classes dec s) = annotation_count s"
  "sample_count (add_decoder_classes dec s) = sample_count s"
  "frame_complete (add_decoder_classes dec s) = frame_complete s"
  "error_message (add_decoder_classes dec s) = error_message s"
proof -
  let ?s1 = "if annotation_rows (decoder dec) = []
      then s\<lparr>rows := (rows s)(Row (dec_ptr (decoder dec)) None \<mapsto> [])\<rparr> else s"
  have eq: "add_decoder_classes dec s =
      fold (add_ann_row (decoder dec)) (annotation_rows (decoder dec)) ?s1"
    by (simp add: add_decoder_classes_def Let_def)
  show "rows_empty (add_decoder_classes dec s)" if "rows_empty s"
  proof -
    from that have "rows_empty ?s1" by (simp add: rows_empty_def)
    then show ?thesis unfolding eq by (rule fold_add_ann_row_frame(1))
  qed
  show "stack (add_decoder_classes dec s) = stack s"
    "samples_decoded (add_decoder_classes dec s) = samples_decoded s"
    "annotation_count (add_decoder_classes dec s) = annotation_count s"
    "sample_count (add_decoder_classes dec s) = sample_count s"
    "frame_complete (add_decoder_classes dec s) = frame_complete s"
    "error_message (add_decoder_classes dec s) = error_message s"
    unfolding eq by (simp_all add: fold_add_ann_row_frame)
qed

lemma fold_add_decoder_classes_frame:
  "rows_empty s \<Longrightarrow> rows_empty (fold add_decoder_classes ds s)"
  "stack (fold add_decoder_classes ds s) = stack s"
  "samples_decoded (fold add_decoder_classes ds s) = samples_decoded s"
  "annotation_count (fold add_decoder_classes ds s) = annotation_count s"
  "sample_count (fold add_decoder_classes ds s) = sample_count s"
  "frame_complete (fold add_decoder_classes ds s) = frame_complete s"
  "error_message (fold add_decoder_classes ds s) = error_message s"
  by (induction ds arbitrary: s) (simp_all add: add_decoder_classes_frame)

lemma begin_decode_fields:
  "rows_empty (begin_decode s)" "samples_decoded (begin_decode s) = 0"
  "annotation_count (begin_decode s) = 0" "sample_count (begin_decode s) = 0"
  "\<not> frame_complete (begin_decode s)"
  "error_message (begin_decode s) = [] \<or>
   error_message (begin_decode s) = ''One or more required channels have not been specified''"
  "decode_thread (begin_decode s) \<Longrightarrow> error_message (begin_decode s) = []"
proof -
  let ?c = "clear (join_decode_thread s)"
  have e: "rows_empty ?c" by (simp add: clear_def rows_empty_def)
  have c: "samples_decoded ?c = 0" "annotation_count ?c = 0" "sample_count ?c = 0"
    "\<not> frame_complete ?c" "error_message ?c = []" "\<not> decode_thread ?c"
    by (simp_all add: clear_def join_decode_thread_def)
  note f = fold_add_decoder_classes_frame [where s = ?c and ds = "stack ?c"]
  show "rows_empty (begin_decode s)"
    using e f(1) by (simp add: begin_decode_def Let_def add_classes_def rows_empty_def
        split: option.splits list.splits)
  show "samples_decoded (begin_decode s) = 0"
    using c f by (simp add: begin_decode_def Let_def add_classes_def
        split: option.splits list.splits)
  show "annotation_count (begin_decode s) = 0"
    using c f by (simp add: begin_decode_def Let_def add_classes_def
        split: option.splits list.splits)
  show "sample_count (begin_decode s) = 0"
    using c f by (simp add: begin_decode_def Let_def add_classes_def
        split: option.splits list.splits)
  show "\<not> frame_complete (begin_decode s)"
    using c f by (simp add: begin_decode_def Let_def add_classes_def
        split: option.splits list.splits)
  show "error_message (begin_decode s) = [] \<or>
   error_message (begin_decode s) = ''One or more required channels have not been specified''"
    using c f by (simp add: begin_decode_def Let_def add_classes_def
        split: option.splits list.splits)
  show "error_message (begin_decode s) = []" if "decode_thread (begin_decode s)"
    using that c f by (simp add: begin_decode_def Let_def add_classes_def
        split: option.splits list.splits if_splits)
qed

lemma begin_decode_forgets:
  "begin_decode (s\<lparr>sample_count := a, annotation_count := b, frame_complete := c,
       samples_decoded := d, error_message := m, rows := r, class_rows := cr\<rparr>) =
   begin_decode s"
  by (simp add: begin_decode_def clear_def join_decode_thread_def)

text \<open>A run on a segment that is empty and stays empty.\<close>

lemma apply_event_no_new_samples:
  assumes "\<forall>n. ev = DataReceived n \<longrightarrow> n = 0" and "sample_count s = 0"
  shows "sample_count (apply_event ev s) = 0"
  using assms
  by (cases ev) (auto simp: on_data_received_def on_frame_ended_def split: option.splits)

lemma apply_events_no_new_samples:
  assumes "\<forall>n. DataReceived n \<in> set b \<longrightarrow> n = 0" and "sample_count s = 0"
  shows "sample_count (apply_events b s) = 0"
  using assms unfolding apply_events_def
proof (induction b arbitrary: s)
  case Nil
  then show ?case by simp
next
  case (Cons ev b)
  from Cons.prems(1) have 1: "\<forall>n. ev = DataReceived n \<longrightarrow> n = 0"
    and 2: "\<forall>n. DataReceived n \<in> set b \<longrightarrow> n = 0" by auto
  from apply_event_no_new_samples [OF 1 Cons.prems(2)]
  have "sample_count (apply_event ev s) = 0" .
  from Cons.IH [OF 2 this] show ?case by simp
qed

lemma wait_loop_no_new_samples:
  assumes "no_new_samples bs" and "sample_count s = 0" and "wait_loop bs s = Some s'"
  shows "sample_count s' = 0"
  using assms
proof (induction bs arbitrary: s)
  case Nil
  then show ?case by (simp split: if_splits)
next
  case (Cons b bs)
  show ?case
  proof (cases "must_wait s")
    case False
    with Cons.prems show ?thesis by simp
  next
    case True
    from Cons.prems(1) have 1: "\<forall>n. DataReceived n \<in> set b \<longrightarrow> n = 0"
      and 2: "no_new_samples bs" by (simp_all add: no_new_samples_def)
    from apply_events_no_new_samples [OF 1 Cons.prems(2)]
    have 3: "sample_count (apply_events b s) = 0" .
    from True Cons.prems(3) have "wait_loop bs (apply_events b s) = Some s'" by simp
    from Cons.IH [OF 2 3 this] show ?thesis .
  qed
qed

lemma wait_for_data_no_new_samples:
  assumes "no_new_samples bs" and "sample_count s = 0" and "samples_decoded s = 0"
    and "wait_for_data bs s = Some (r, s')"
  shows "r = None"
proof -
  from assms(4) have w: "wait_loop bs s = Some s'"
    by (auto simp: wait_for_data_def split: option.splits)
  from wait_loop_no_new_samples [OF assms(1,2) w] have sc: "sample_count s' = 0" .
  from wait_for_data_frame [OF assms(4)] assms(3)
  have sd: "samples_decoded s' = 0" and nw: "\<not> must_wait s'" and r: "r = wait_result s'"
    by (simp_all add: same_progress_def)
  from sc sd nw show ?thesis
    unfolding r by (auto simp: wait_result_def make_optional_def must_wait_def)
qed

lemma decode_data_nothing:
  assumes "segment s = Some seg" and "seg_unit_size seg \<noteq> 0" and "\<not> a < n"
  shows "decode_data e a n u s = Some (Inr s)"
  using assms by (simp add: decode_data_def) (subst decode_data_loop.simps, simp)

lemma decode_data_nothing':
  assumes "decode_data e a n u s = Some (Inr s1)" and "\<not> a < n"
  shows "s1 = s"
proof -
  from decode_data_Inr [OF assms(1)] obtain seg :: segment where
    "segment s = Some seg" "seg_unit_size seg \<noteq> 0" by auto
  from decode_data_nothing [OF this assms(2)] assms(1) show ?thesis by simp
qed

lemma decode_proc_loop_empty:
  assumes l: "decode_proc_loop e u 0 0 s = Some (Inr s')"
    and "sample_count s = 0" and "samples_decoded s = 0"
    and "no_new_samples (wakes e (n_wait s))"
  shows "samples_decoded s' = 0 \<and> annotation_count s' = annotation_count s \<and>
    rows s' = rows s \<and> n_send s' = n_send s"
proof -
  from l obtain r where dd: "decode_data e 0 0 u s = Some r"
    by (subst (asm) decode_proc_loop.simps) (auto split: option.splits)
  from l dd obtain s1 where r: "r = Inr s1"
    by (subst (asm) decode_proc_loop.simps) (auto split: sum.splits)
  from decode_data_nothing' [of e 0 0 u s s1] dd r have s1: "s1 = s" by simp
  show ?thesis
  proof (cases "error_message s = []")
    case False
    with l dd r s1 have "s' = s"
      by (subst (asm) decode_proc_loop.simps) simp
    with assms show ?thesis by simp
  next
    case True
    let ?s = "s\<lparr>n_wait := Suc (n_wait s)\<rparr>"
    from l dd r s1 True obtain w where
      w: "wait_for_data (wakes e (n_wait s)) ?s = Some w"
      by (subst (asm) decode_proc_loop.simps) (auto split: option.splits)
    obtain r' s2 where w': "w = (r', s2)" by (cases w)
    from wait_for_data_no_new_samples [of "wakes e (n_wait s)" ?s r' s2] assms w w'
    have "r' = None" by simp
    with l dd r s1 True w w' have "s' = s2"
      by (subst (asm) decode_proc_loop.simps) simp
    with wait_for_data_setup [of "wakes e (n_wait s)" s r' s2] w w' assms(3)
    show ?thesis by simp
  qed
qed

lemma decode_proc_empty_segment:
  assumes run: "decode_proc e s = Some (Inr s')"
    and seg: "segment s = Some seg" "seg_sample_count seg = 0"
    and sd: "samples_decoded s = 0"
    and nn: "no_new_samples (wakes e (n_wait s))"
  shows "samples_decoded s' = 0 \<and> annotation_count s' = annotation_count s \<and>
    rows s' = rows s \<and> n_send s' = n_send s"
proof (cases "all_created s")
  case False
  from decode_proc_not_created [OF run False] sd show ?thesis by simp
next
  case True
  from decode_proc_created [OF run True] seg obtain s4 s5 where
    s4: "s4 = s\<lparr>sample_count := 0,
            trace := trace s @ [SrdSessionNew] @ inst_effects (stack s) False @
                [SrdSessionMetadataSet, SrdPdOutputCallbackAdd, SrdSessionStart]\<rparr>"
    and l: "decode_proc_loop e (seg_unit_size seg) 0 0 s4 = Some (Inr s5)"
    and s': "s' = s5\<lparr>trace := trace s5 @ [NewAnnotations, SrdSessionDestroy]\<rparr>"
    by auto
  from decode_proc_loop_empty [OF l] s4 sd nn
  have "samples_decoded s5 = 0 \<and> annotation_count s5 = annotation_count s4 \<and>
    rows s5 = rows s4 \<and> n_send s5 = n_send s4" by simp
  then show ?thesis by (simp add: s' s4)
qed

lemma decode_proc_empty_stopped:
  assumes seg: "segment s = Some seg" "seg_sample_count seg = 0" "seg_unit_size seg \<noteq> 0"
    and sd: "samples_decoded s = 0" and st: "capture_state s = Stopped"
  shows "\<exists>s'. decode_proc e s = Some (Inr s')"
proof (cases "all_created s")
  case False
  let ?s1 = "s\<lparr>trace := trace s @ [SrdSessionNew]\<rparr>"
  from False have n: "\<not> (\<forall>dec \<in> set (stack ?s1). create_decoder_inst_ok dec)"
    by (simp add: all_created_def)
  have "create_decoders (stack ?s1) False ?s1 =
      (False, ?s1\<lparr>error_message := ''Failed to create decoder instance'',
                   trace := trace ?s1 @ inst_effects (stack ?s1) False @ [SrdSessionDestroy]\<rparr>)"
    unfolding create_decoders_eq using n by (simp only: if_False)
  with seg show ?thesis by (simp add: decode_proc_def Let_def)
next
  case True
  let ?s1 = "s\<lparr>trace := trace s @ [SrdSessionNew]\<rparr>"
  let ?s4 = "s\<lparr>sample_count := 0,
            trace := trace s @ [SrdSessionNew] @ inst_effects (stack s) False @
                [SrdSessionMetadataSet, SrdPdOutputCallbackAdd, SrdSessionStart]\<rparr>"
  from True have c: "create_decoders (stack ?s1) False ?s1 =
      (True, ?s1\<lparr>trace := trace ?s1 @ inst_effects (stack ?s1) False\<rparr>)"
    by (simp add: create_decoders_eq all_created_def)
  have dd: "decode_data e 0 0 (seg_unit_size seg) ?s4 = Some (Inr ?s4)"
    using seg by (intro decode_data_nothing [of _ seg]) simp_all
  have "\<exists>s5. decode_proc_loop e (seg_unit_size seg) 0 0 ?s4 = Some (Inr s5)"
  proof (cases "error_message s = []")
    case False
    then show ?thesis using dd by (subst decode_proc_loop.simps) simp
  next
    case True
    let ?w = "?s4\<lparr>n_wait := Suc (n_wait ?s4)\<rparr>"
    have nw: "\<not> must_wait ?w" using st by (simp add: must_wait_def)
    have "wait_result ?w = None" using st sd
      by (simp add: wait_result_def make_optional_def)
    with nw have "wait_for_data (wakes e (n_wait ?s4)) ?w = Some (None, ?w)"
      by (simp add: wait_for_data_def wait_loop_now)
    with dd True have "decode_proc_loop e (seg_unit_size seg) 0 0 ?s4 = Some (Inr ?w)"
      by (intro decode_proc_loop_finished [of _ _ _ _ _ ?s4]) simp_all
    then show ?thesis ..
  qed
  then obtain s5 where "decode_proc_loop e (seg_unit_size seg) 0 0 ?s4 = Some (Inr s5)" ..
  with seg c show ?thesis by (simp add: decode_proc_def Let_def)
qed

text \<open>Counting the notifications of the callback.\<close>

lemma resolves_cong:
  assumes "class_rows s' = class_rows s" and "\<forall>x. rows s' x = None \<longleftrightarrow> rows s x = None"
  shows "resolves s' p = resolves s p"
proof -
  have "find_row s' d k = None \<longleftrightarrow> find_row s d k = None" for d k
    using assms by (simp add: find_row_def split: option.splits)
  then show ?thesis unfolding resolves_def by simp
qed

lemma annotation_callback_resolved:
  assumes "resolves s pdata"
  shows "\<exists>s'. annotation_callback b pdata s = Inr s' \<and>
     trace s' = trace s @
       (if annotation_count s mod DecodeNotifyPeriod = 0 then [NewAnnotations] else []) \<and>
     annotation_count s' = (annotation_count s + 1) mod 2 ^ 64 \<and>
     (\<forall>p. resolves s' p = resolves s p)"
proof -
  from assms obtain r rd where
    f: "find_row s (pd_decoder pdata) (pd_ann_class pdata) = Some (r, rd)"
    unfolding resolves_def by (cases "find_row s (pd_decoder pdata) (pd_ann_class pdata)") auto
  then have rr: "rows s r = Some rd" by (rule find_row_Some)
  have fmt: "format (Annotation pdata) = pd_ann_class pdata" by (simp add: Annotation_def)
  let ?s2 = "s\<lparr>annotation_count := (annotation_count s + 1) mod 2 ^ 64,
               rows := (rows s)(r \<mapsto> push_annotation (Annotation pdata) rd)\<rparr>"
  let ?s' = "if annotation_count s mod DecodeNotifyPeriod = 0
             then ?s2\<lparr>trace := trace ?s2 @ [NewAnnotations]\<rparr> else ?s2"
  have 1: "annotation_callback b pdata s = Inr ?s'"
    using f by (simp add: annotation_callback_def Let_def fmt inc_annotation_count_def)
  have 2: "trace ?s' = trace s @
       (if annotation_count s mod DecodeNotifyPeriod = 0 then [NewAnnotations] else [])"
    by simp
  have 3: "annotation_count ?s' = (annotation_count s + 1) mod 2 ^ 64" by simp
  have 4: "\<forall>p. resolves ?s' p = resolves s p"
  proof
    fix p
    have "class_rows ?s' = class_rows s" by simp
    moreover have "\<forall>x. rows ?s' x = None \<longleftrightarrow> rows s x = None" using rr by simp
    ultimately show "resolves ?s' p = resolves s p" by (rule resolves_cong)
  qed
  show ?thesis
    by (rule exI [of _ ?s'], intro conjI) (fact 1 2 3 4)+
qed

lemma annotation_callback_unresolved:
  assumes "\<not> resolves s pdata" and "annotation_callback b pdata s = Inr s'"
  shows "s' = s\<lparr>trace := trace s @ [QDebug (pd_decoder pdata) (pd_ann_class pdata)]\<rparr>"
proof -
  have fmt: "format (Annotation pdata) = pd_ann_class pdata" by (simp add: Annotation_def)
  from assms(1) have "find_row s (pd_decoder pdata) (pd_ann_class pdata) = None"
    unfolding resolves_def by blast
  with assms(2) show ?thesis
    by (simp add: annotation_callback_def Let_def fmt split: if_splits)
qed

lemma notify_step:
  fixes c :: nat
  shows "(c + 1 + 1023) div 1024 = (c + 1023) div 1024 + (if c mod 1024 = 0 then 1 else 0)"
proof -
  define q r where "q = c div 1024" and "r = c mod 1024"
  have c: "c = q * 1024 + r" and r: "r < 1024" by (simp_all add: q_def r_def)
  have 1: "(c + 1 + 1023) div 1024 = q + 1" unfolding c using r by simp
  have 2: "(c + 1023) div 1024 = q + (if r = 0 then 0 else 1)"
  proof (cases "r = 0")
    case True
    then show ?thesis unfolding c by simp
  next
    case False
    with r have "r + 1023 = 1024 + (r - 1)" "r - 1 < 1024" by simp_all
    then have "(q * 1024 + r + 1023) div 1024 = (1024 * (q + 1) + (r - 1)) div 1024"
      by (simp add: algebra_simps)
    also have "\<dots> = q + 1" using \<open>r - 1 < 1024\<close> by simp
    finally show ?thesis using False unfolding c by simp
  qed
  from 1 2 show ?thesis by (simp add: r_def)
qed

lemma mod_2_64_mod_1024: "(c mod 2 ^ 64) mod 1024 = c mod (1024::nat)"
  by (rule mod_mod_cancel) simp

lemma callbacks_notifications:
  assumes "callbacks b ps s = Inr s'" and "annotation_count s = c mod 2 ^ 64"
  shows "annotation_count s' = (c + length (filter (resolves s) ps)) mod 2 ^ 64 \<and>
     notifications (trace s') + (c + 1023) div 1024 =
       notifications (trace s) + (c + length (filter (resolves s) ps) + 1023) div 1024"
  using assms
proof (induction ps arbitrary: s c)
  case Nil
  then show ?case by simp
next
  case (Cons pdata ps)
  from Cons.prems(1) obtain s1 where
    1: "annotation_callback b pdata s = Inr s1" and 2: "callbacks b ps s1 = Inr s'"
    by (auto split: sum.splits)
  let ?k = "length (filter (resolves s) ps)"
  show ?case
  proof (cases "resolves s pdata")
    case False
    from annotation_callback_unresolved [OF False 1]
    have s1: "s1 = s\<lparr>trace := trace s @ [QDebug (pd_decoder pdata) (pd_ann_class pdata)]\<rparr>" .
    then have eq: "resolves s1 = resolves s"
      by (intro ext resolves_cong) simp_all
    from s1 Cons.prems(2) have c: "annotation_count s1 = c mod 2 ^ 64" by simp
    from s1 have n: "notifications (trace s1) = notifications (trace s)"
      by (simp add: notifications_def)
    from Cons.IH [OF 2 c] have "annotation_count s' = (c + ?k) mod 2 ^ 64 \<and>
      notifications (trace s') + (c + 1023) div 1024 =
        notifications (trace s) + (c + ?k + 1023) div 1024"
      unfolding eq n .
    with False show ?thesis by simp
  next
    case True
    from annotation_callback_resolved [OF True, of b] 1 have
      t: "trace s1 = trace s @
       (if annotation_count s mod DecodeNotifyPeriod = 0 then [NewAnnotations] else [])"
      and a: "annotation_count s1 = (annotation_count s + 1) mod 2 ^ 64"
      and eq: "resolves s1 = resolves s" by auto
    from a Cons.prems(2) have c: "annotation_count s1 = (c + 1) mod 2 ^ 64"
      by (simp add: mod_simps)
    have m: "annotation_count s mod DecodeNotifyPeriod = c mod 1024"
      unfolding Cons.prems(2) DecodeNotifyPeriod_def by (rule mod_2_64_mod_1024)
    from t m have n: "notifications (trace s1) =
        notifications (trace s) + (if c mod 1024 = 0 then 1 else 0)"
      by (simp add: notifications_def)
    from Cons.IH [OF 2 c] have
      r: "annotation_count s' = (c + 1 + ?k) mod 2 ^ 64"
        "notifications (trace s') + (c + 1 + 1023) div 1024 =
           notifications (trace s1) + (c + 1 + ?k + 1023) div 1024"
      unfolding eq by simp_all
    have k: "length (filter (resolves s) (pdata # ps)) = Suc ?k" using True by simp
    have "annotation_count s' = (c + Suc ?k) mod 2 ^ 64" using r(1) by simp
    moreover have "notifications (trace s') + (c + 1023) div 1024 =
        notifications (trace s) + (c + Suc ?k + 1023) div 1024"
      using r(2) n notify_step [of c] by (simp split: if_splits)
    ultimately show ?thesis unfolding k by simp
  qed
qed

subsection \<open>The example runs\<close>

text \<open>With these congruence rules the simplifier evaluates a \<open>case\<close> or \<open>if\<close> only after
  its argument, so that the equations of the loops unfold as often as the run iterates.\<close>

lemmas eval_cong = if_weak_cong sum.case_cong_weak option.case_cong_weak prod.case_cong_weak

lemma ex_run_fail:
  "case decode_proc ex_env_fail (begin_decode ex_stack) of
     Some (Inr s') \<Rightarrow> n_send s' = 2 \<and> samples_decoded s' = 10485760 \<and>
       decoded_log s' = [10485760] \<and>
       rows s' (Row 1 (Some 10)) = Some [Annotation (ex_pdata 0), Annotation (ex_pdata 1)] \<and>
       send_ranges (trace s') = [(0, 10485760), (10485760, 20971520)]
   | _ \<Rightarrow> False"
  by (simp add: ex_defs model_defs Let_def decode_data_loop.simps decode_proc_loop.simps
      cong: eval_cong)

lemma ex_begin_decode:
  "samples_decoded (begin_decode ex_stack) = 0" "n_send (begin_decode ex_stack) = 0"
  "decoded_log (begin_decode ex_stack) = []" "decode_thread (begin_decode ex_stack)"
  "segment (begin_decode ex_stack) = Some ex_segment"
  "rows (begin_decode ex_stack) (Row 1 (Some 10)) = Some []"
  by (simp_all add: ex_defs model_defs Let_def)

lemma chunk_sample_count_eq:
  assumes "0 < unit_sz" and "int unit_sz \<le> DecodeChunkLength"
  shows "chunk_sample_count unit_sz = DecodeChunkLength div int unit_sz"
    and "0 < chunk_sample_count unit_sz"
proof -
  let ?q = "DecodeChunkLength div int unit_sz"
  from assms have p: "0 < ?q" by (simp add: pos_imp_zdiv_pos_iff)
  have "?q \<le> DecodeChunkLength"
    by (rule int_div_le_self) (simp add: DecodeChunkLength_def)
  then have "?q < 2 ^ 32" by (simp add: DecodeChunkLength_def)
  with p show "chunk_sample_count unit_sz = ?q"
    by (simp add: chunk_sample_count_def)
  with p show "0 < chunk_sample_count unit_sz" by simp
qed

lemma add_ann_row_only:
  "\<exists>R C. add_ann_row decc ann_row s = s\<lparr>rows := R, class_rows := C\<rparr>"
  by (auto simp: add_ann_row_def Let_def)

lemma fold_add_ann_row_only:
  "\<exists>R C. fold (add_ann_row decc) rs s = s\<lparr>rows := R, class_rows := C\<rparr>"
proof (induction rs arbitrary: s)
  case Nil
  have "s = s\<lparr>rows := rows s, class_rows := class_rows s\<rparr>" by simp
  then have "\<exists>R C. s = s\<lparr>rows := R, class_rows := C\<rparr>" by (intro exI)
  then show ?case by simp
next
  case (Cons a rs)
  from add_ann_row_only obtain R C where 1: "add_ann_row decc a s = s\<lparr>rows := R, class_rows := C\<rparr>"
    by blast
  from Cons.IH [of "s\<lparr>rows := R, class_rows := C\<rparr>"] obtain R' C' where
    "fold (add_ann_row decc) rs (s\<lparr>rows := R, class_rows := C\<rparr>) =
       s\<lparr>rows := R', class_rows := C'\<rparr>" by auto
  with 1 show ?case by auto
qed

lemma add_decoder_classes_only:
  "\<exists>R C. add_decoder_classes dec s = s\<lparr>rows := R, class_rows := C\<rparr>"
proof -
  let ?s1 = "if annotation_rows (decoder dec) = []
      then s\<lparr>rows := (rows s)(Row (dec_ptr (decoder dec)) None \<mapsto> [])\<rparr> else s"
  have eq: "add_decoder_classes dec s =
      fold (add_ann_row (decoder dec)) (annotation_rows (decoder dec)) ?s1"
    by (simp add: add_decoder_classes_def Let_def)
  from fold_add_ann_row_only [of "decoder dec" "annotation_rows (decoder dec)" ?s1]
  obtain R C where "fold (add_ann_row (decoder dec)) (annotation_rows (decoder dec)) ?s1 =
      ?s1\<lparr>rows := R, class_rows := C\<rparr>" by blast
  then have "add_decoder_classes dec s = s\<lparr>rows := R, class_rows := C\<rparr>"
    unfolding eq by (simp split: if_splits)
  then show ?thesis by blast
qed

lemma fold_add_decoder_classes_only:
  "\<exists>R C. fold add_decoder_classes ds s = s\<lparr>rows := R, class_rows := C\<rparr>"
proof (induction ds arbitrary: s)
  case Nil
  have "s = s\<lparr>rows := rows s, class_rows := class_rows s\<rparr>" by simp
  then have "\<exists>R C. s = s\<lparr>rows := R, class_rows := C\<rparr>" by (intro exI)
  then show ?case by simp
next
  case (Cons a ds)
  from add_decoder_classes_only obtain R C where
    1: "add_decoder_classes a s = s\<lparr>rows := R, class_rows := C\<rparr>" by blast
  from Cons.IH [of "s\<lparr>rows := R, class_rows := C\<rparr>"] obtain R' C' where
    "fold add_decoder_classes ds (s\<lparr>rows := R, class_rows := C\<rparr>) =
       s\<lparr>rows := R', class_rows := C'\<rparr>" by auto
  with 1 show ?case by auto
qed

lemma begin_decode_ghost:
  "n_wait (begin_decode s) = n_wait s" "n_send (begin_decode s) = n_send s"
  "capture_state (begin_decode s) = capture_state s" "stack (begin_decode s) = stack s"
  "trace (begin_decode s) = trace s" "decoded_log (begin_decode s) = decoded_log s"
proof -
  let ?c = "clear (join_decode_thread s)"
  from fold_add_decoder_classes_only [of "stack ?c" ?c] obtain R C where
    a: "add_classes ?c = ?c\<lparr>rows := R, class_rows := C\<rparr>"
    unfolding add_classes_def by blast
  show "n_wait (begin_decode s) = n_wait s" "n_send (begin_decode s) = n_send s"
    "capture_state (begin_decode s) = capture_state s" "stack (begin_decode s) = stack s"
    "trace (begin_decode s) = trace s" "decoded_log (begin_decode s) = decoded_log s"
    unfolding begin_decode_def Let_def a
    by (simp_all add: clear_def join_decode_thread_def split: option.splits list.splits)
qed

lemma ex_dirty_begin_decode:
  "segment (begin_decode ex_dirty) = Some \<lparr>seg_unit_size = 1, seg_sample_count = 0\<rparr>"
  "rows (begin_decode ex_dirty) (Row 1 (Some 10)) = Some []"
  "decode_thread (begin_decode ex_dirty)"
  by (simp_all add: ex_dirty_def ex_defs model_defs Let_def)

lemma ex_rows:
  "class_rows (begin_decode ex_stack) (1, 2) = Some (Row 1 (Some 11))"
  "rows (begin_decode ex_stack) (Row 1 (Some 11)) = Some []"
  "class_rows (begin_decode ex_stack) (2, 0) = None"
  "rows (begin_decode ex_stack) (Row 2 None) = Some []"
  "class_rows (begin_decode ex_stack) (3, 0) = None"
  "rows (begin_decode ex_stack) (Row 3 None) = None"
  "trace (begin_decode ex_stack) = []"
  "annotation_count (begin_decode ex_stack) = 0"
  by (simp_all add: ex_defs model_defs Let_def)

section \<open>The claims\<close>

subsection \<open>Waiting for data\<close>

text \<open>
  Claim C1. When \<open>wait_for_data\<close> returns, the optional is engaged, with the current
  \<open>sample_count\<close> as its value, exactly if no interrupt was requested, there is more work
  to do (\<open>samples_decoded < sample_count\<close>, or the frame is not complete), and it is not
  the case that all samples are decoded while the capture is stopped; otherwise it is
  disengaged. The call returns at once when the condition of the wait does not hold, and
  after the first batch of events that ends the wait. A disengaged result ends the loop of
  the decode thread.
\<close>

theorem wait_for_data_result:
  "(wait_for_data bs s = Some (r, s') \<longrightarrow>
      r = (if \<not> interrupt s' \<and>
              (samples_decoded s' < sample_count s' \<or> \<not> frame_complete s') \<and>
              \<not> (samples_decoded s' \<ge> sample_count s' \<and> capture_state s' = Stopped)
           then Some (sample_count s') else None)) \<and>
   (interrupt s \<or> frame_complete s \<or> samples_decoded s < sample_count s \<or>
    capture_state s = Stopped \<longrightarrow>
      wait_for_data bs s = Some (wait_result s, s)) \<and>
   (must_wait s \<and> \<not> must_wait (apply_events b s) \<longrightarrow>
      wait_for_data (b # bs) s = Some (wait_result (apply_events b s), apply_events b s)) \<and>
   (decode_data e a n u s0 = Some (Inr s1) \<and> error_message s1 = [] \<and>
    wait_for_data (wakes e (n_wait s1)) (s1\<lparr>n_wait := Suc (n_wait s1)\<rparr>) = Some (None, s2) \<longrightarrow>
      decode_proc_loop e u a n s0 = Some (Inr s2))"
proof (intro conjI impI)
  assume "wait_for_data bs s = Some (r, s')"
  from wait_for_data_frame(5) [OF this]
  show "r = (if \<not> interrupt s' \<and>
              (samples_decoded s' < sample_count s' \<or> \<not> frame_complete s') \<and>
              \<not> (samples_decoded s' \<ge> sample_count s' \<and> capture_state s' = Stopped)
           then Some (sample_count s') else None)"
    by (simp add: wait_result_def make_optional_def)
next
  assume "interrupt s \<or> frame_complete s \<or> samples_decoded s < sample_count s \<or>
    capture_state s = Stopped"
  then have "\<not> must_wait s" by (auto simp: must_wait_def)
  then show "wait_for_data bs s = Some (wait_result s, s)"
    by (simp add: wait_for_data_def wait_loop_now)
next
  assume "must_wait s \<and> \<not> must_wait (apply_events b s)"
  then show "wait_for_data (b # bs) s =
      Some (wait_result (apply_events b s), apply_events b s)"
    by (simp add: wait_for_data_def wait_loop_now)
next
  assume "decode_data e a n u s0 = Some (Inr s1) \<and> error_message s1 = [] \<and>
    wait_for_data (wakes e (n_wait s1)) (s1\<lparr>n_wait := Suc (n_wait s1)\<rparr>) = Some (None, s2)"
  then show "decode_proc_loop e u a n s0 = Some (Inr s2)"
    by (simp add: decode_proc_loop_finished)
qed

theorem wait_for_data_result_witness:
  "wait_for_data [[DataReceived 250]] ex_waiting =
     Some (Some 250, ex_waiting\<lparr>segment := Some (ex_segment\<lparr>seg_sample_count := 250\<rparr>),
                               sample_count := 250\<rparr>) \<and>
   samples_decoded ex_waiting = 100 \<and> \<not> interrupt ex_waiting \<and>
   wait_for_data [] (ex_waiting\<lparr>frame_complete := True\<rparr>) =
     Some (None, ex_waiting\<lparr>frame_complete := True\<rparr>) \<and>
   decode_proc_loop ex_env 1 100 100 (ex_waiting\<lparr>capture_state := Stopped\<rparr>) =
     Some (Inr (ex_waiting\<lparr>capture_state := Stopped, n_wait := 1\<rparr>))"
proof -
  let ?s' = "ex_waiting\<lparr>segment := Some (ex_segment\<lparr>seg_sample_count := 250\<rparr>),
                               sample_count := 250\<rparr>"
  let ?fc = "ex_waiting\<lparr>frame_complete := True\<rparr>"
  let ?st = "ex_waiting\<lparr>capture_state := Stopped\<rparr>"
  have ev: "apply_events [DataReceived 250] ex_waiting = ?s'"
    by (simp add: ex_waiting_def ex_defs model_defs)
  have mw: "must_wait ex_waiting \<and> \<not> must_wait (apply_events [DataReceived 250] ex_waiting)"
    unfolding ev by (simp add: ex_waiting_def ex_defs must_wait_def)
  from wait_for_data_result [where bs = "[]" and s = ex_waiting and b = "[DataReceived 250]",
      THEN conjunct2, THEN conjunct2, THEN conjunct1] mw
  have 1: "wait_for_data [[DataReceived 250]] ex_waiting = Some (wait_result ?s', ?s')"
    by (simp add: ev)
  from wait_for_data_result [where bs = "[[DataReceived 250]]" and s = ex_waiting
      and r = "wait_result ?s'" and s' = ?s', THEN conjunct1] 1
  have r: "wait_result ?s' = Some 250"
    by (simp add: ex_waiting_def ex_defs)
  have fc: "interrupt ?fc \<or> frame_complete ?fc \<or> samples_decoded ?fc < sample_count ?fc \<or>
    capture_state ?fc = Stopped" by simp
  from wait_for_data_result [where bs = "[]" and s = ?fc, THEN conjunct2, THEN conjunct1] fc
  have 2: "wait_for_data [] ?fc = Some (wait_result ?fc, ?fc)" by simp
  have dd: "decode_data ex_env 100 100 1 ?st = Some (Inr ?st)"
    by (simp add: ex_waiting_def ex_defs model_defs decode_data_loop.simps)
  have w: "wait_for_data (wakes ex_env (n_wait ?st)) (?st\<lparr>n_wait := Suc (n_wait ?st)\<rparr>) =
      Some (None, ex_waiting\<lparr>capture_state := Stopped, n_wait := 1\<rparr>)"
    by (simp add: ex_waiting_def ex_defs model_defs)
  have 3: "decode_proc_loop ex_env 1 100 100 ?st =
      Some (Inr (ex_waiting\<lparr>capture_state := Stopped, n_wait := 1\<rparr>))"
    using wait_for_data_result [where e = ex_env and a = 100 and n = 100 and u = 1
        and ?s0.0 = ?st and ?s1.0 = ?st
        and ?s2.0 = "ex_waiting\<lparr>capture_state := Stopped, n_wait := 1\<rparr>"] dd w
    by (simp add: ex_waiting_def ex_defs)
  from 1 r 2 3 show ?thesis
    by (simp add: ex_waiting_def ex_defs model_defs)
qed

subsection \<open>A failing send\<close>

text \<open>
  Claim C2. In a run of the decode thread in which the \<open>k\<close>-th \<^verbatim>\<open>srd_session_send\<close> call
  fails, the run ends with the message \<^verbatim>\<open>Decoder reported an error\<close>, call \<open>k\<close> is the
  last call of the run, \<open>samples_decoded\<close> has been assigned once for each call before it and
  holds the last value assigned (the initial 0 when the first call failed), and every row
  keeps the annotations it had and those added up to the failure. The failing call ends
  \<open>decode_data\<close> at once, without touching \<open>samples_decoded\<close>, and a non-empty error message
  ends the loop of the thread.
\<close>

theorem send_failure_ends_run:
  "(decode_proc e s = Some (Inr s') \<and> samples_decoded s = 0 \<and>
    n_send s \<le> k \<and> k < n_send s' \<and> \<not> ok (send e k) \<longrightarrow>
      error_message s' = ''Decoder reported an error'' \<and>
      n_send s' = Suc k \<and>
      (\<exists>new. decoded_log s' = decoded_log s @ new \<and> length new = k - n_send s \<and>
         sorted (0 # new) \<and> samples_decoded s' = last (0 # new)) \<and>
      rows_extend s s') \<and>
   (\<not> interrupt s0 \<and> i < n \<and>
    srd_session_send e i (min (i + chunk) n) u s0 = Inr (False, s1) \<longrightarrow>
      decode_data_loop e chunk n u i s0 =
        Some (Inr (s1\<lparr>error_message := ''Decoder reported an error''\<rparr>)) \<and>
      samples_decoded s1 = samples_decoded s0 \<and> n_send s1 = Suc (n_send s0)) \<and>
   (decode_data e a n u s0 = Some (Inr s2) \<and> error_message s2 \<noteq> [] \<longrightarrow>
      decode_proc_loop e u a n s0 = Some (Inr s2))"
proof (intro conjI impI)
  assume h: "decode_proc e s = Some (Inr s') \<and> samples_decoded s = 0 \<and>
    n_send s \<le> k \<and> k < n_send s' \<and> \<not> ok (send e k)"
  then have run: "decode_proc e s = Some (Inr s')" and z: "samples_decoded s = 0" by simp_all
  from h have k: "n_send s \<le> k" "k < n_send s'" "\<not> ok (send e k)" by simp_all
  note acc = decode_proc_accounting [OF run k]
  show "error_message s' = ''Decoder reported an error''" by (rule acc(2))
  show "n_send s' = Suc k" by (rule acc(1))
  from decode_proc_progress [OF run z] obtain new where
    new: "decoded_log s' = decoded_log s @ new" "sorted (samples_decoded s # new)"
      "samples_decoded s' = last (samples_decoded s # new)" by blast
  from new(1) acc(3) have "length new = k - n_send s" by simp
  with new z show "\<exists>new. decoded_log s' = decoded_log s @ new \<and> length new = k - n_send s \<and>
         sorted (0 # new) \<and> samples_decoded s' = last (0 # new)" by auto
  show "rows_extend s s'" by (rule decode_proc_rows [OF run])
next
  assume h: "\<not> interrupt s0 \<and> i < n \<and>
    srd_session_send e i (min (i + chunk) n) u s0 = Inr (False, s1)"
  then show "decode_data_loop e chunk n u i s0 =
        Some (Inr (s1\<lparr>error_message := ''Decoder reported an error''\<rparr>))"
    by (simp add: decode_data_loop_fail)
  from h have "srd_session_send e i (min (i + chunk) n) u s0 = Inr (False, s1)" by simp
  note p = srd_session_send_props [OF this]
  from p show "samples_decoded s1 = samples_decoded s0" by simp
  from p show "n_send s1 = Suc (n_send s0)" by simp
next
  assume "decode_data e a n u s0 = Some (Inr s2) \<and> error_message s2 \<noteq> []"
  then show "decode_proc_loop e u a n s0 = Some (Inr s2)"
    by (simp add: decode_proc_loop_fail)
qed

theorem send_failure_ends_run_witness:
  "(\<exists>s'. decode_proc ex_env_fail (begin_decode ex_stack) = Some (Inr s') \<and>
     \<not> ok (send ex_env_fail 1) \<and>
     error_message s' = ''Decoder reported an error'' \<and> n_send s' = 2 \<and>
     samples_decoded s' = 10485760 \<and> decoded_log s' = [10485760] \<and>
     rows (begin_decode ex_stack) (Row 1 (Some 10)) = Some [] \<and>
     rows s' (Row 1 (Some 10)) = Some [Annotation (ex_pdata 0), Annotation (ex_pdata 1)]) \<and>
   decode_data_loop ex_env_fail 50 200 1 100 (ex_waiting\<lparr>n_send := 1\<rparr>) =
     Some (Inr (ex_waiting\<lparr>error_message := ''Decoder reported an error'',
        trace := [SrdSessionSend 100 150 50 1, QDebug 1 0], n_send := 2\<rparr>)) \<and>
   decode_proc_loop ex_env_fail 1 100 200 (ex_waiting\<lparr>n_send := 1\<rparr>) =
     Some (Inr (ex_waiting\<lparr>error_message := ''Decoder reported an error'',
        trace := [SrdSessionSend 100 200 100 1, QDebug 1 0], n_send := 2\<rparr>))"
proof (intro conjI)
  from ex_run_fail obtain s' where
    run: "decode_proc ex_env_fail (begin_decode ex_stack) = Some (Inr s')"
    and v: "n_send s' = 2" "samples_decoded s' = 10485760" "decoded_log s' = [10485760]"
      "rows s' (Row 1 (Some 10)) = Some [Annotation (ex_pdata 0), Annotation (ex_pdata 1)]"
    by (auto split: option.splits sum.splits)
  have f: "\<not> ok (send ex_env_fail 1)" by (simp add: ex_env_fail_def)
  from send_failure_ends_run [where e = ex_env_fail and s = "begin_decode ex_stack"
      and s' = s' and k = 1, THEN conjunct1] run f v(1) ex_begin_decode(1,2)
  have "error_message s' = ''Decoder reported an error'' \<and> n_send s' = Suc 1"
    by simp
  with run f v ex_begin_decode(6)
  show "\<exists>s'. decode_proc ex_env_fail (begin_decode ex_stack) = Some (Inr s') \<and>
     \<not> ok (send ex_env_fail 1) \<and>
     error_message s' = ''Decoder reported an error'' \<and> n_send s' = 2 \<and>
     samples_decoded s' = 10485760 \<and> decoded_log s' = [10485760] \<and>
     rows (begin_decode ex_stack) (Row 1 (Some 10)) = Some [] \<and>
     rows s' (Row 1 (Some 10)) = Some [Annotation (ex_pdata 0), Annotation (ex_pdata 1)]"
    by simp
next
  let ?s0 = "ex_waiting\<lparr>n_send := 1\<rparr>"
  let ?s1 = "ex_waiting\<lparr>trace := [SrdSessionSend 100 150 50 1, QDebug 1 0], n_send := 2\<rparr>"
  have snd: "srd_session_send ex_env_fail 100 (min (100 + 50) 200) 1 ?s0 = Inr (False, ?s1)"
    by (simp add: ex_waiting_def ex_defs model_defs Let_def)
  have i: "\<not> interrupt ?s0" by (simp add: ex_waiting_def ex_defs)
  from send_failure_ends_run [where e = ex_env_fail and ?s0.0 = ?s0 and i = 100 and n = 200
      and chunk = 50 and u = 1 and ?s1.0 = ?s1, THEN conjunct2, THEN conjunct1] snd i
  show "decode_data_loop ex_env_fail 50 200 1 100 ?s0 =
     Some (Inr (ex_waiting\<lparr>error_message := ''Decoder reported an error'',
        trace := [SrdSessionSend 100 150 50 1, QDebug 1 0], n_send := 2\<rparr>))"
    by (simp add: ex_waiting_def ex_defs)
next
  let ?s0 = "ex_waiting\<lparr>n_send := 1\<rparr>"
  let ?s2 = "ex_waiting\<lparr>error_message := ''Decoder reported an error'',
        trace := [SrdSessionSend 100 200 100 1, QDebug 1 0], n_send := 2\<rparr>"
  have dd: "decode_data ex_env_fail 100 200 1 ?s0 = Some (Inr ?s2)"
    by (simp add: ex_waiting_def ex_defs model_defs Let_def decode_data_loop.simps
        cong: eval_cong)
  have m: "error_message ?s2 \<noteq> []" by simp
  from send_failure_ends_run [where e = ex_env_fail and ?s0.0 = ?s0 and a = 100 and n = 200
      and u = 1 and ?s2.0 = ?s2, THEN conjunct2, THEN conjunct2] dd m
  show "decode_proc_loop ex_env_fail 1 100 200 ?s0 = Some (Inr ?s2)"
    by simp
qed

subsection \<open>Missing required channels\<close>

text \<open>
  Claim C3. When a decoder of the stack lacks a required channel, \<open>begin_decode\<close> leaves a
  non-empty error message and \<open>samples_decoded = 0\<close>, builds no rows and no class map, does
  not take a segment, starts no thread and makes no call into the engine.
\<close>

theorem begin_decode_missing_channels:
  assumes "\<exists>dec \<in> set (stack s). \<not> have_required_channels dec"
  shows "error_message (begin_decode s) \<noteq> [] \<and>
         samples_decoded (begin_decode s) = 0 \<and>
         rows (begin_decode s) = Map.empty \<and> class_rows (begin_decode s) = Map.empty \<and>
         segment (begin_decode s) = segment s \<and>
         \<not> decode_thread (begin_decode s) \<and>
         trace (begin_decode s) = trace s \<and> n_send (begin_decode s) = n_send s"
proof -
  let ?s = "clear (join_decode_thread s)"
  have st: "stack ?s = stack s"
    by (simp add: clear_def join_decode_thread_def)
  with assms have "\<exists>dec \<in> set (stack ?s). \<not> have_required_channels dec" by simp
  then have "begin_decode s =
      ?s\<lparr>error_message := ''One or more required channels have not been specified''\<rparr>"
    by (simp add: begin_decode_def Let_def)
  then show ?thesis
    by (simp add: clear_def join_decode_thread_def)
qed

theorem begin_decode_missing_channels_witness:
  "(\<exists>dec \<in> set (stack ex_unbound). \<not> have_required_channels dec) \<and>
   error_message (begin_decode ex_unbound) =
     ''One or more required channels have not been specified'' \<and>
   samples_decoded ex_unbound = 100 \<and> samples_decoded (begin_decode ex_unbound) = 0 \<and>
   decode_thread ex_unbound \<and> \<not> decode_thread (begin_decode ex_unbound)"
proof -
  have h: "\<exists>dec \<in> set (stack ex_unbound). \<not> have_required_channels dec"
    by (simp add: ex_unbound_def ex_waiting_def ex_defs)
  have m: "error_message (begin_decode ex_unbound) =
     ''One or more required channels have not been specified''"
    by (simp add: ex_unbound_def ex_waiting_def ex_defs model_defs)
  from begin_decode_missing_channels [OF h] h m show ?thesis
    by (simp add: ex_unbound_def ex_waiting_def ex_defs)
qed

subsection \<open>Progress never goes back\<close>

text \<open>
  Claim C4. In a run of the decode thread, started with \<open>samples_decoded = 0\<close> as
  \<open>begin_decode\<close> leaves it, the values that \<open>decode_data\<close> assigns to \<open>samples_decoded\<close>
  never decrease: the initial value followed by the assigned values, in the order of
  assignment, is a sorted list, and the final value is its last element.
\<close>

theorem samples_decoded_never_decreases:
  assumes "decode_proc e s = Some (Inr s')" and "samples_decoded s = 0"
  shows "\<exists>new. decoded_log s' = decoded_log s @ new \<and> sorted (samples_decoded s # new) \<and>
           samples_decoded s' = last (samples_decoded s # new)"
  using assms by (rule decode_proc_progress)

theorem samples_decoded_never_decreases_witness:
  "\<exists>s'. decode_proc ex_env (begin_decode ex_stack) = Some (Inr s') \<and>
     samples_decoded (begin_decode ex_stack) = 0 \<and>
     decoded_log s' = [10485760, 20971520, 25000000] \<and>
     sorted (0 # decoded_log s') \<and> samples_decoded s' = 25000000"
proof -
  have "case decode_proc ex_env (begin_decode ex_stack) of
     Some (Inr s') \<Rightarrow> decoded_log s' = [10485760, 20971520, 25000000]
   | _ \<Rightarrow> False"
    by (simp add: ex_defs model_defs Let_def decode_data_loop.simps decode_proc_loop.simps
        cong: eval_cong)
  then obtain s' where
    run: "decode_proc ex_env (begin_decode ex_stack) = Some (Inr s')"
    and v: "decoded_log s' = [10485760, 20971520, 25000000]"
    by (auto split: option.splits sum.splits)
  from samples_decoded_never_decreases [OF run ex_begin_decode(1)] v ex_begin_decode(1,3)
  have "sorted (0 # decoded_log s') \<and> samples_decoded s' = 25000000" by auto
  with run v ex_begin_decode(1) show ?thesis by simp
qed

subsection \<open>Feeding in chunks\<close>

text \<open>
  Claim C5. \<open>decode_data\<close> runs its loop with chunks of \<open>DecodeChunkLength\<close> divided by the
  unit size of the segment. With chunks of \<open>chunk\<close> samples, from sample \<open>a\<close> to sample
  \<open>n\<close>, without a failing call and without an interrupt, the loop returns after exactly
  \<open>chunk_count a n chunk\<close> calls (the quotient \<open>(n - a) / chunk\<close> rounded up), call \<open>j\<close>
  covers the samples from \<open>a + j * chunk\<close> to \<open>min (a + (j + 1) * chunk) n\<close>,
  \<open>samples_decoded\<close> ends at \<open>n\<close> and the error message is as before.
\<close>

theorem decode_data_chunks:
  "(segment s = Some seg \<and> 0 < seg_unit_size seg \<and>
    int (seg_unit_size seg) \<le> DecodeChunkLength \<longrightarrow>
      0 < DecodeChunkLength div int (seg_unit_size seg) \<and>
      decode_data e a n u s =
        decode_data_loop e (DecodeChunkLength div int (seg_unit_size seg)) n u a s) \<and>
   (build e = NDebug \<and> 0 < chunk \<and> a \<le> n \<and> samples_decoded s = a \<and> \<not> interrupt s \<and>
    (\<forall>j < chunk_count a n chunk. ok (send e (n_send s + j)) \<and>
        InterruptRequested \<notin> set (during (send e (n_send s + j)))) \<longrightarrow>
      (\<exists>s'. decode_data_loop e chunk n u a s = Some (Inr s') \<and>
         n_send s' = n_send s + chunk_count a n chunk \<and>
         send_ranges (trace s') = send_ranges (trace s) @
           map (\<lambda>j. (a + int j * chunk, min (a + (int j + 1) * chunk) n))
             [0..<chunk_count a n chunk] \<and>
         samples_decoded s' = n \<and> error_message s' = error_message s))"
proof (intro conjI impI)
  assume h: "segment s = Some seg \<and> 0 < seg_unit_size seg \<and>
    int (seg_unit_size seg) \<le> DecodeChunkLength"
  then have u: "0 < seg_unit_size seg" "int (seg_unit_size seg) \<le> DecodeChunkLength"
    by simp_all
  note c = chunk_sample_count_eq [OF u]
  from c show "0 < DecodeChunkLength div int (seg_unit_size seg)" by simp
  from h c(1) show "decode_data e a n u s =
        decode_data_loop e (DecodeChunkLength div int (seg_unit_size seg)) n u a s"
    by (simp add: decode_data_def)
next
  assume h: "build e = NDebug \<and> 0 < chunk \<and> a \<le> n \<and> samples_decoded s = a \<and>
    \<not> interrupt s \<and>
    (\<forall>j < chunk_count a n chunk. ok (send e (n_send s + j)) \<and>
        InterruptRequested \<notin> set (during (send e (n_send s + j))))"
  then have b: "build e = NDebug" and c: "0 < chunk" and i: "\<not> interrupt s"
    and al: "\<forall>j < chunk_count a n chunk. ok (send e (n_send s + j)) \<and>
        InterruptRequested \<notin> set (during (send e (n_send s + j)))"
    and an: "a \<le> n" and sd: "samples_decoded s = a" by simp_all
  have k: "chunk_count a n chunk = nat ((n - a + chunk - 1) div chunk)"
    by (simp add: chunk_count_def)
  from decode_data_loop_total [OF b c i al k, of u] obtain s' where
    r: "decode_data_loop e chunk n u a s = Some (Inr s')"
      "n_send s' = n_send s + chunk_count a n chunk"
      "send_ranges (trace s') = send_ranges (trace s) @
         map (\<lambda>j. (a + int j * chunk, min (a + (int j + 1) * chunk) n))
           [0..<chunk_count a n chunk]"
      "samples_decoded s' = (if a < n then n else samples_decoded s)"
      "error_message s' = error_message s"
    by auto
  from r(4) an sd have "samples_decoded s' = n" by auto
  with r(1,2,3,5)
  show "\<exists>s'. decode_data_loop e chunk n u a s = Some (Inr s') \<and>
         n_send s' = n_send s + chunk_count a n chunk \<and>
         send_ranges (trace s') = send_ranges (trace s) @
           map (\<lambda>j. (a + int j * chunk, min (a + (int j + 1) * chunk) n))
             [0..<chunk_count a n chunk] \<and>
         samples_decoded s' = n \<and> error_message s' = error_message s"
    by (intro exI [of _ s']) simp
qed

theorem decode_data_chunks_witness:
  "decode_data ex_env 0 25000000 1 ex_waiting =
     decode_data_loop ex_env 10485760 25000000 1 0 ex_waiting \<and>
   (\<exists>s'. decode_data_loop ex_env 250000 1000000 1 0 ex_stack = Some (Inr s') \<and>
      n_send s' = 4 \<and>
      send_ranges (trace s') =
        [(0, 250000), (250000, 500000), (500000, 750000), (750000, 1000000)] \<and>
      samples_decoded s' = 1000000 \<and> error_message s' = []) \<and>
   (\<exists>s'. decode_data_loop ex_env 10485760 25000000 1 0 ex_stack = Some (Inr s') \<and>
      n_send s' = 3 \<and>
      send_ranges (trace s') = [(0, 10485760), (10485760, 20971520), (20971520, 25000000)] \<and>
      samples_decoded s' = 25000000 \<and> error_message s' = [])"
proof (intro conjI)
  have "segment ex_waiting = Some ex_segment \<and> 0 < seg_unit_size ex_segment \<and>
    int (seg_unit_size ex_segment) \<le> DecodeChunkLength"
    by (simp add: ex_waiting_def ex_defs DecodeChunkLength_def)
  with decode_data_chunks [where s = ex_waiting and seg = ex_segment and e = ex_env
      and a = 0 and n = 25000000 and u = 1, THEN conjunct1]
  show "decode_data ex_env 0 25000000 1 ex_waiting =
     decode_data_loop ex_env 10485760 25000000 1 0 ex_waiting"
    by (simp add: ex_segment_def DecodeChunkLength_def)
next
  have c: "chunk_count 0 1000000 250000 = 4" by (simp add: chunk_count_def)
  have h: "build ex_env = NDebug \<and> (0::int) < 250000 \<and> (0::int) \<le> 1000000 \<and>
    samples_decoded ex_stack = 0 \<and> \<not> interrupt ex_stack \<and>
    (\<forall>j < chunk_count 0 1000000 250000. ok (send ex_env (n_send ex_stack + j)) \<and>
        InterruptRequested \<notin> set (during (send ex_env (n_send ex_stack + j))))"
    by (simp add: ex_defs)
  from decode_data_chunks [where s = ex_stack and e = ex_env and a = 0 and n = 1000000
      and u = 1 and chunk = 250000, THEN conjunct2, rule_format, OF h]
  show "\<exists>s'. decode_data_loop ex_env 250000 1000000 1 0 ex_stack = Some (Inr s') \<and>
      n_send s' = 4 \<and>
      send_ranges (trace s') =
        [(0, 250000), (250000, 500000), (500000, 750000), (750000, 1000000)] \<and>
      samples_decoded s' = 1000000 \<and> error_message s' = []"
    unfolding c by (simp add: ex_stack_def upt_rec)
next
  have c: "chunk_count 0 25000000 10485760 = 3" by (simp add: chunk_count_def)
  have h: "build ex_env = NDebug \<and> (0::int) < 10485760 \<and> (0::int) \<le> 25000000 \<and>
    samples_decoded ex_stack = 0 \<and> \<not> interrupt ex_stack \<and>
    (\<forall>j < chunk_count 0 25000000 10485760. ok (send ex_env (n_send ex_stack + j)) \<and>
        InterruptRequested \<notin> set (during (send ex_env (n_send ex_stack + j))))"
    by (simp add: ex_defs)
  from decode_data_chunks [where s = ex_stack and e = ex_env and a = 0 and n = 25000000
      and u = 1 and chunk = 10485760, THEN conjunct2, rule_format, OF h]
  show "\<exists>s'. decode_data_loop ex_env 10485760 25000000 1 0 ex_stack = Some (Inr s') \<and>
      n_send s' = 3 \<and>
      send_ranges (trace s') = [(0, 10485760), (10485760, 20971520), (20971520, 25000000)] \<and>
      samples_decoded s' = 25000000 \<and> error_message s' = []"
    unfolding c by (simp add: ex_stack_def upt_rec)
qed

subsection \<open>Classifying an annotation\<close>

text \<open>
  Claim C6. The callback looks the pair of decoder and class up in the class map and, when
  there is no entry, takes the row of the decoder alone. When the row it has found this way
  is in the row index, the annotation is appended to the store of that row and no other
  store changes. When it is not, the callback (in the default build, where the assertions
  are compiled out) writes the debug line, changes nothing else and returns, and the
  annotations after it are processed as usual; the callbacks never abort the run.
\<close>

theorem annotation_callback_classifies:
  "(let d = pd_decoder pdata; c = pd_ann_class pdata;
        r = (case class_rows s (d, c) of Some r \<Rightarrow> r | None \<Rightarrow> Row d None)
    in case rows s r of
         Some rd \<Rightarrow>
           (\<exists>s'. annotation_callback b pdata s = Inr s' \<and>
                 rows s' = (rows s)(r \<mapsto> rd @ [Annotation pdata]) \<and>
                 callbacks b (pdata # ps) s = callbacks b ps s')
       | None \<Rightarrow>
           annotation_callback NDebug pdata s = Inr (s\<lparr>trace := trace s @ [QDebug d c]\<rparr>) \<and>
           callbacks NDebug (pdata # ps) s =
             callbacks NDebug ps (s\<lparr>trace := trace s @ [QDebug d c]\<rparr>)) \<and>
   (\<exists>s'. callbacks NDebug ps s = Inr s')"
proof (intro conjI)
  show "\<exists>s'. callbacks NDebug ps s = Inr s'" by (rule callbacks_NDebug)
next
  let ?d = "pd_decoder pdata" and ?c = "pd_ann_class pdata"
  let ?r = "case class_rows s (?d, ?c) of Some r \<Rightarrow> r | None \<Rightarrow> Row ?d None"
  have fr: "find_row s ?d ?c = map_option (Pair ?r) (rows s ?r)"
    by (simp add: find_row_def split: option.splits)
  have fmt: "format (Annotation pdata) = ?c" by (simp add: Annotation_def)
  show "let d = pd_decoder pdata; c = pd_ann_class pdata;
        r = (case class_rows s (d, c) of Some r \<Rightarrow> r | None \<Rightarrow> Row d None)
    in case rows s r of
         Some rd \<Rightarrow>
           (\<exists>s'. annotation_callback b pdata s = Inr s' \<and>
                 rows s' = (rows s)(r \<mapsto> rd @ [Annotation pdata]) \<and>
                 callbacks b (pdata # ps) s = callbacks b ps s')
       | None \<Rightarrow>
           annotation_callback NDebug pdata s = Inr (s\<lparr>trace := trace s @ [QDebug d c]\<rparr>) \<and>
           callbacks NDebug (pdata # ps) s =
             callbacks NDebug ps (s\<lparr>trace := trace s @ [QDebug d c]\<rparr>)"
  proof (cases "rows s ?r")
    case None
    with fr have "find_row s ?d ?c = None" by simp
    then have "annotation_callback NDebug pdata s =
        Inr (s\<lparr>trace := trace s @ [QDebug ?d ?c]\<rparr>)"
      by (simp add: annotation_callback_def Let_def fmt)
    with None show ?thesis by (simp add: Let_def)
  next
    case (Some rd)
    with fr have f: "find_row s ?d ?c = Some (?r, rd)" by simp
    have "\<exists>s'. annotation_callback b pdata s = Inr s' \<and>
        rows s' = (rows s)(?r \<mapsto> rd @ [Annotation pdata])"
      using f
      by (simp add: annotation_callback_def Let_def fmt inc_annotation_count_def
          push_annotation_def)
    then obtain s' where "annotation_callback b pdata s = Inr s'"
      "rows s' = (rows s)(?r \<mapsto> rd @ [Annotation pdata])" by blast
    then have "annotation_callback b pdata s = Inr s' \<and>
                 rows s' = (rows s)(?r \<mapsto> rd @ [Annotation pdata]) \<and>
                 callbacks b (pdata # ps) s = callbacks b ps s'" by simp
    then have "\<exists>s'. annotation_callback b pdata s = Inr s' \<and>
                 rows s' = (rows s)(?r \<mapsto> rd @ [Annotation pdata]) \<and>
                 callbacks b (pdata # ps) s = callbacks b ps s'" ..
    with Some show ?thesis by (simp add: Let_def)
  qed
qed

theorem annotation_callback_classifies_witness:
  "(\<exists>s'. annotation_callback NDebug (ex_pdata_of 1 2) (begin_decode ex_stack) = Inr s' \<and>
      rows s' (Row 1 (Some 11)) = Some [Annotation (ex_pdata_of 1 2)] \<and>
      rows s' (Row 1 (Some 10)) = Some [] \<and> rows s' (Row 2 None) = Some []) \<and>
   (\<exists>s'. annotation_callback NDebug (ex_pdata_of 2 0) (begin_decode ex_stack) = Inr s' \<and>
      rows s' (Row 2 None) = Some [Annotation (ex_pdata_of 2 0)] \<and>
      rows s' (Row 1 (Some 11)) = Some []) \<and>
   annotation_callback NDebug (ex_pdata_of 3 0) (begin_decode ex_stack) =
     Inr ((begin_decode ex_stack)\<lparr>trace := [QDebug 3 0]\<rparr>) \<and>
   callbacks NDebug [ex_pdata_of 3 0, ex_pdata_of 2 0] (begin_decode ex_stack) =
     callbacks NDebug [ex_pdata_of 2 0] ((begin_decode ex_stack)\<lparr>trace := [QDebug 3 0]\<rparr>)"
proof -
  let ?s = "begin_decode ex_stack"
  have r10: "rows ?s (Row 1 (Some 10)) = Some []" by (rule ex_begin_decode)
  from annotation_callback_classifies [where s = ?s and pdata = "ex_pdata_of 1 2"
      and b = NDebug and ps = "[]"] ex_rows(1,2)
  have 1: "\<exists>s'. annotation_callback NDebug (ex_pdata_of 1 2) ?s = Inr s' \<and>
      rows s' = (rows ?s)(Row 1 (Some 11) \<mapsto> [Annotation (ex_pdata_of 1 2)])"
    by (auto simp: ex_pdata_of_def Let_def)
  from annotation_callback_classifies [where s = ?s and pdata = "ex_pdata_of 2 0"
      and b = NDebug and ps = "[]"] ex_rows(3,4)
  have 2: "\<exists>s'. annotation_callback NDebug (ex_pdata_of 2 0) ?s = Inr s' \<and>
      rows s' = (rows ?s)(Row 2 None \<mapsto> [Annotation (ex_pdata_of 2 0)])"
    by (auto simp: ex_pdata_of_def Let_def)
  from annotation_callback_classifies [where s = ?s and pdata = "ex_pdata_of 3 0"
      and b = NDebug and ps = "[ex_pdata_of 2 0]"] ex_rows(5,6,7)
  have 3: "annotation_callback NDebug (ex_pdata_of 3 0) ?s = Inr (?s\<lparr>trace := [QDebug 3 0]\<rparr>) \<and>
    callbacks NDebug [ex_pdata_of 3 0, ex_pdata_of 2 0] ?s =
     callbacks NDebug [ex_pdata_of 2 0] (?s\<lparr>trace := [QDebug 3 0]\<rparr>)"
    by (simp add: ex_pdata_of_def Let_def)
  from 1 2 3 r10 ex_rows(2,4) show ?thesis by auto
qed

subsection \<open>Restarting\<close>

text \<open>
  Claim C7. \<open>begin_decode\<close> joins a joinable decode thread first, and its result does not
  depend on the old values of \<open>sample_count\<close>, the annotation counter, \<open>frame_complete\<close>,
  \<open>samples_decoded\<close>, the error message, the row index and the class map. After it the
  counters are 0, the frame is not complete, no row holds an annotation, and the error
  message is empty when a thread was started. A run on an empty segment that gets no
  samples ends with \<open>samples_decoded = 0\<close> and without annotations, and it does end when
  the capture is stopped.
\<close>

theorem begin_decode_resets:
  "begin_decode (s\<lparr>sample_count := a, annotation_count := b, frame_complete := c,
       samples_decoded := d, error_message := m, rows := r, class_rows := cr\<rparr>) =
     begin_decode s \<and>
   (decode_thread s \<longrightarrow>
      begin_decode s = begin_decode (s\<lparr>interrupt := True, decode_thread := False\<rparr>)) \<and>
   sample_count (begin_decode s) = 0 \<and> annotation_count (begin_decode s) = 0 \<and>
   \<not> frame_complete (begin_decode s) \<and> samples_decoded (begin_decode s) = 0 \<and>
   rows_empty (begin_decode s) \<and>
   (decode_thread (begin_decode s) \<longrightarrow> error_message (begin_decode s) = []) \<and>
   (decode_proc e (begin_decode s) = Some (Inr s') \<and>
    segment (begin_decode s) = Some seg \<and> seg_sample_count seg = 0 \<and>
    no_new_samples (wakes e (n_wait s)) \<longrightarrow>
      samples_decoded s' = 0 \<and> annotation_count s' = 0 \<and> rows_empty s' \<and>
      n_send s' = n_send s) \<and>
   (segment (begin_decode s) = Some seg \<and> seg_sample_count seg = 0 \<and>
    seg_unit_size seg \<noteq> 0 \<and> capture_state s = Stopped \<longrightarrow>
      (\<exists>s'. decode_proc e (begin_decode s) = Some (Inr s')))"
proof (intro conjI impI)
  show "begin_decode (s\<lparr>sample_count := a, annotation_count := b, frame_complete := c,
       samples_decoded := d, error_message := m, rows := r, class_rows := cr\<rparr>) =
     begin_decode s" by (rule begin_decode_forgets)
  show "begin_decode s = begin_decode (s\<lparr>interrupt := True, decode_thread := False\<rparr>)"
    if "decode_thread s"
    using that by (simp add: begin_decode_def join_decode_thread_def)
  show "sample_count (begin_decode s) = 0" by (rule begin_decode_fields)
  show "annotation_count (begin_decode s) = 0" by (rule begin_decode_fields)
  show "samples_decoded (begin_decode s) = 0" by (rule begin_decode_fields)
  show "rows_empty (begin_decode s)" by (rule begin_decode_fields)
  show "error_message (begin_decode s) = []" if "decode_thread (begin_decode s)"
    using that by (rule begin_decode_fields)
  show "\<not> frame_complete (begin_decode s)" by (rule begin_decode_fields)
next
  assume h: "decode_proc e (begin_decode s) = Some (Inr s') \<and>
    segment (begin_decode s) = Some seg \<and> seg_sample_count seg = 0 \<and>
    no_new_samples (wakes e (n_wait s))"
  then have run: "decode_proc e (begin_decode s) = Some (Inr s')"
    and seg: "segment (begin_decode s) = Some seg" "seg_sample_count seg = 0"
    and nn: "no_new_samples (wakes e (n_wait (begin_decode s)))"
    by (simp_all add: begin_decode_ghost)
  from decode_proc_empty_segment [OF run seg begin_decode_fields(2) nn]
  have r: "samples_decoded s' = 0" "annotation_count s' = annotation_count (begin_decode s)"
    "rows s' = rows (begin_decode s)" "n_send s' = n_send (begin_decode s)" by simp_all
  show "samples_decoded s' = 0" by (rule r(1))
  show "annotation_count s' = 0" using r(2) by (simp add: begin_decode_fields)
  show "rows_empty s'" using r(3) begin_decode_fields(1) [of s] by (simp add: rows_empty_def)
  show "n_send s' = n_send s" using r(4) by (simp add: begin_decode_ghost)
next
  assume h: "segment (begin_decode s) = Some seg \<and> seg_sample_count seg = 0 \<and>
    seg_unit_size seg \<noteq> 0 \<and> capture_state s = Stopped"
  then have seg: "segment (begin_decode s) = Some seg" "seg_sample_count seg = 0"
    "seg_unit_size seg \<noteq> 0" and st: "capture_state (begin_decode s) = Stopped"
    by (simp_all add: begin_decode_ghost)
  from decode_proc_empty_stopped [OF seg begin_decode_fields(2) st]
  show "\<exists>s'. decode_proc e (begin_decode s) = Some (Inr s')" .
qed

theorem begin_decode_resets_witness:
  "decode_thread ex_dirty \<and>
   begin_decode ex_dirty = begin_decode (ex_dirty\<lparr>interrupt := True, decode_thread := False\<rparr>) \<and>
   samples_decoded ex_dirty = 500 \<and> annotation_count ex_dirty = 7 \<and>
   rows ex_dirty (Row 1 (Some 10)) = Some [ex_annotation] \<and>
   capture_state ex_dirty = Stopped \<and>
   decode_thread (begin_decode ex_dirty) \<and> error_message (begin_decode ex_dirty) = [] \<and>
   samples_decoded (begin_decode ex_dirty) = 0 \<and>
   rows (begin_decode ex_dirty) (Row 1 (Some 10)) = Some [] \<and>
   (\<exists>s'. decode_proc ex_env (begin_decode ex_dirty) = Some (Inr s') \<and>
      samples_decoded s' = 0 \<and> annotation_count s' = 0 \<and>
      rows s' (Row 1 (Some 10)) = Some [])"
proof -
  let ?seg = "\<lparr>seg_unit_size = 1, seg_sample_count = 0\<rparr> :: segment"
  note t = begin_decode_resets [where s = ex_dirty and e = ex_env and seg = ?seg
      and a = 0 and b = 0 and c = False and d = 0 and m = "[]" and r = Map.empty
      and cr = Map.empty]
  have st: "capture_state ex_dirty = Stopped" by (simp add: ex_dirty_def)
  have nn: "no_new_samples (wakes ex_env (n_wait ex_dirty))"
    by (simp add: no_new_samples_def ex_env_def)
  from t [where s' = ex_dirty] ex_dirty_begin_decode(1) st obtain s' where
    run: "decode_proc ex_env (begin_decode ex_dirty) = Some (Inr s')" by auto
  from t [where s' = s'] run ex_dirty_begin_decode(1) nn
  have r: "samples_decoded s' = 0" "annotation_count s' = 0" "rows_empty s'" by simp_all
  from decode_proc_rows [OF run] ex_dirty_begin_decode(2) obtain rd where
    "rows s' (Row 1 (Some 10)) = Some rd"
    unfolding rows_extend_def
    by (metis option.rel_distinct(2) option.exhaust)
  with r(3) have rw: "rows s' (Row 1 (Some 10)) = Some []" by (auto simp: rows_empty_def)
  from t [where s' = ex_dirty] ex_dirty_begin_decode(3)
  have b: "error_message (begin_decode ex_dirty) = []" "samples_decoded (begin_decode ex_dirty) = 0"
    by simp_all
  have d: "samples_decoded ex_dirty = 500" "annotation_count ex_dirty = 7"
    "rows ex_dirty (Row 1 (Some 10)) = Some [ex_annotation]" "decode_thread ex_dirty"
    by (simp_all add: ex_dirty_def)
  from t [where s' = ex_dirty] d(4)
  have j: "begin_decode ex_dirty =
      begin_decode (ex_dirty\<lparr>interrupt := True, decode_thread := False\<rparr>)" by simp
  from d j st ex_dirty_begin_decode(2,3) b run r(1,2) rw show ?thesis by blast
qed

subsection \<open>Notifications\<close>

text \<open>
  Claim C8. The callback emits \<^verbatim>\<open>new_annotations()\<close> exactly when the annotation counter,
  before it is incremented, is a multiple of \<open>DecodeNotifyPeriod = 1024\<close>; so, counted from
  a counter of 0, the number of notifications for \<open>k\<close> stored annotations is \<open>k / 1024\<close>
  rounded up. When the decode thread has created its instances and leaves its loop, the
  trace of the run ends with one more \<^verbatim>\<open>new_annotations()\<close> followed by the destruction
  of the session, which happens nowhere else in the run.
\<close>

theorem new_annotations_notified:
  "(resolves s pdata \<longrightarrow>
      (\<exists>s'. annotation_callback b pdata s = Inr s' \<and>
         trace s' = trace s @
           (if annotation_count s mod DecodeNotifyPeriod = 0 then [NewAnnotations] else []) \<and>
         annotation_count s' = (annotation_count s + 1) mod 2 ^ 64)) \<and>
   (callbacks b ps s = Inr s1 \<and> annotation_count s = 0 \<longrightarrow>
      notifications (trace s1) =
        notifications (trace s) + (length (filter (resolves s) ps) + 1023) div 1024) \<and>
   (decode_proc e s0 = Some (Inr s2) \<and> all_created s0 \<longrightarrow>
      (\<exists>mid. trace s2 = trace s0 @ mid @ [NewAnnotations, SrdSessionDestroy] \<and>
         SrdSessionDestroy \<notin> set mid))"
proof (intro conjI impI)
  assume "resolves s pdata"
  from annotation_callback_resolved [OF this, of b]
  show "\<exists>s'. annotation_callback b pdata s = Inr s' \<and>
         trace s' = trace s @
           (if annotation_count s mod DecodeNotifyPeriod = 0 then [NewAnnotations] else []) \<and>
         annotation_count s' = (annotation_count s + 1) mod 2 ^ 64"
    by blast
next
  assume "callbacks b ps s = Inr s1 \<and> annotation_count s = 0"
  then have 1: "callbacks b ps s = Inr s1" and 2: "annotation_count s = 0 mod 2 ^ 64"
    by simp_all
  from callbacks_notifications [OF 1 2]
  show "notifications (trace s1) =
        notifications (trace s) + (length (filter (resolves s) ps) + 1023) div 1024"
    by simp
next
  assume "decode_proc e s0 = Some (Inr s2) \<and> all_created s0"
  then have "decode_proc e s0 = Some (Inr s2)" "all_created s0" by simp_all
  then show "\<exists>mid. trace s2 = trace s0 @ mid @ [NewAnnotations, SrdSessionDestroy] \<and>
         SrdSessionDestroy \<notin> set mid"
    by (rule decode_proc_final_notification)
qed

theorem new_annotations_notified_witness:
  "(\<exists>s'. annotation_callback NDebug (ex_pdata_of 1 2) (begin_decode ex_stack) = Inr s' \<and>
      trace s' = [NewAnnotations] \<and> annotation_count s' = 1) \<and>
   (\<exists>s1. callbacks NDebug (replicate 1025 (ex_pdata_of 1 2)) (begin_decode ex_stack) = Inr s1 \<and>
      notifications (trace s1) = 2) \<and>
   (\<exists>s2 mid. decode_proc ex_env_fail (begin_decode ex_stack) = Some (Inr s2) \<and>
      trace s2 = mid @ [NewAnnotations, SrdSessionDestroy] \<and> SrdSessionDestroy \<notin> set mid)"
proof (intro conjI)
  let ?s = "begin_decode ex_stack"
  have res: "resolves ?s (ex_pdata_of 1 2)"
    using ex_rows(1,2) by (simp add: resolves_def find_row_def ex_pdata_of_def)
  from new_annotations_notified [where s = ?s and pdata = "ex_pdata_of 1 2" and b = NDebug,
      THEN conjunct1] res ex_rows(7,8)
  show "\<exists>s'. annotation_callback NDebug (ex_pdata_of 1 2) ?s = Inr s' \<and>
      trace s' = [NewAnnotations] \<and> annotation_count s' = 1"
    by (simp add: DecodeNotifyPeriod_def)
  from callbacks_NDebug obtain s1 where
    cb: "callbacks NDebug (replicate 1025 (ex_pdata_of 1 2)) ?s = Inr s1" by blast
  from new_annotations_notified [where s = ?s and ps = "replicate 1025 (ex_pdata_of 1 2)"
      and b = NDebug and ?s1.0 = s1, THEN conjunct2, THEN conjunct1] cb res ex_rows(7,8)
  have "notifications (trace s1) = 2" by (simp add: notifications_def)
  with cb show "\<exists>s1. callbacks NDebug (replicate 1025 (ex_pdata_of 1 2)) ?s = Inr s1 \<and>
      notifications (trace s1) = 2" by blast
  from ex_run_fail obtain s2 where
    run: "decode_proc ex_env_fail ?s = Some (Inr s2)"
    by (auto split: option.splits sum.splits)
  have ac: "all_created ?s" by (simp add: all_created_def begin_decode_ghost) (simp add: ex_defs)
  from new_annotations_notified [where e = ex_env_fail and ?s0.0 = ?s and ?s2.0 = s2,
      THEN conjunct2, THEN conjunct2] run ac ex_rows(7)
  show "\<exists>s2 mid. decode_proc ex_env_fail ?s = Some (Inr s2) \<and>
      trace s2 = mid @ [NewAnnotations, SrdSessionDestroy] \<and> SrdSessionDestroy \<notin> set mid"
    by auto
qed

subsection \<open>Removing a decoder\<close>

lemma advance_ok: "pos + n < len \<Longrightarrow> advance b n len pos = Inr (pos + n)"
  by (induction n arbitrary: pos) auto

text \<open>
  Claim C9, as amended. For an index in range, \<open>remove\<close> erases exactly the element at that
  position and keeps the order of the others, in every build. The bounds are checked by
  assertions only: in a build with assertions an index that is negative or not less than the
  size of the stack aborts the program at the assertion, before the stack is touched.
\<close>

theorem remove_in_range_or_asserted:
  "(0 \<le> index \<and> index < int (length (stack s)) \<longrightarrow>
      remove b index s =
        Inr (s\<lparr>stack := take (nat index) (stack s) @ drop (Suc (nat index)) (stack s)\<rparr>)) \<and>
   (index < 0 \<or> int (length (stack s)) \<le> index \<longrightarrow>
      remove Debug index s = Inl AssertionFailed)"
proof (intro conjI impI)
  assume a: "0 \<le> index \<and> index < int (length (stack s))"
  then have n: "nat index < length (stack s)" by linarith
  then have "advance b (nat index) (length (stack s)) 0 = Inr (nat index)"
    using advance_ok [of 0 "nat index" "length (stack s)" b] by simp
  with a n show "remove b index s =
        Inr (s\<lparr>stack := take (nat index) (stack s) @ drop (Suc (nat index)) (stack s)\<rparr>)"
    by (simp add: remove_def erase_def)
next
  assume "index < 0 \<or> int (length (stack s)) \<le> index"
  then show "remove Debug index s = Inl AssertionFailed"
    by (auto simp: remove_def)
qed

theorem remove_in_range_or_asserted_witness:
  "remove NDebug 1 ex_stack = Inr (ex_stack\<lparr>stack := [ex_decoder ex_uart]\<rparr>) \<and>
   remove Debug 2 ex_stack = Inl AssertionFailed \<and>
   remove Debug (- 1) ex_stack = Inl AssertionFailed"
  using remove_in_range_or_asserted [of 1 ex_stack NDebug]
    remove_in_range_or_asserted [of 2 ex_stack]
    remove_in_range_or_asserted [of "- 1" ex_stack]
  by (simp add: ex_stack_def)

text \<open>
  In the default build the assertions are compiled out: \<^verbatim>\<open>remove(-1)\<close> on a stack of two
  decoders returns normally and has erased the first decoder.
\<close>

theorem remove_negative_index_counterexample:
  "remove NDebug (- 1) ex_stack = Inr (ex_stack\<lparr>stack := [ex_decoder ex_midi]\<rparr>)"
  by (simp add: remove_def erase_def ex_stack_def)

subsection \<open>Querying an unknown row\<close>

text \<open>
  Claim C10. For a row that is not in the row index, \<open>get_annotation_subset\<close> returns the
  destination vector as it was. The function is a const member: it returns nothing but the
  destination, so it neither changes the object nor sets an error.
\<close>

theorem get_annotation_subset_unknown_row:
  "rows s r = None \<Longrightarrow> get_annotation_subset s dest r start_s end_s = dest"
  by (simp add: get_annotation_subset_def)

theorem get_annotation_subset_unknown_row_witness:
  "rows ex_stack (Row 7 None) = None \<and>
   get_annotation_subset ex_stack [ex_annotation] (Row 7 None) 0 100 = [ex_annotation]"
  using get_annotation_subset_unknown_row [of ex_stack "Row 7 None" "[ex_annotation]" 0 100]
  by (simp add: ex_stack_def)

end
